theory Spec2Isabelle
  imports Main
begin

section \<open>The AWS lookup cache of pkg/cloudprovider/provider/aws/helper.go\<close>

text \<open>
  The file embeds \<open>getVpc\<close> and \<open>getDefaultAMIID\<close> together with the state they
  share: the mutex \<open>cacheLock\<close>, the expiring store \<open>cache\<close> and the clock. Every call
  also appends what it does (locking, cache reads and writes, requests to EC2) to a trace,
  so that the order of these actions can be stated.

  Pointer fields of the SDK's descriptors (\<open>VpcId\<close>, \<open>ImageId\<close>, \<open>CreationDate\<close>,
  \<open>Config.Region\<close>) are modelled as plain values: the descriptors are those that the
  EC2 API returns, which carry these fields. The verbosity-6 log lines of \<open>glog\<close> are
  not part of the model.
\<close>

subsection \<open>Data\<close>

type_synonym OperatingSystem = string

text \<open>
  Modelled from the spec: the constants \<open>OperatingSystemCoreos\<close>, \<open>OperatingSystemCentOS\<close>
  and \<open>OperatingSystemUbuntu\<close> are declared in package \<open>providerconfig\<close>, which is not
  part of the sources at hand. The spec only says that they are operating-system tags and that
  \<open>plan9\<close> is not among them; they are taken to be the lower-case names.
\<close>

definition OperatingSystemCoreos :: OperatingSystem where
  "OperatingSystemCoreos = ''coreos''"

definition OperatingSystemCentOS :: OperatingSystem where
  "OperatingSystemCentOS = ''centos''"

definition OperatingSystemUbuntu :: OperatingSystem where
  "OperatingSystemUbuntu = ''ubuntu''"

record amiFilter =
  description :: string
  owner :: string

definition amiFilters :: "OperatingSystem \<Rightarrow> amiFilter option" where
  "amiFilters = map_of
     [(OperatingSystemCoreos,
         \<lparr>description = ''CoreOS Container Linux stable*'', owner = ''595879546273''\<rparr>),
      (OperatingSystemCentOS,
         \<lparr>description = ''CentOS Linux 7 x86_64 HVM EBS*'', owner = ''679593333241''\<rparr>),
      (OperatingSystemUbuntu,
         \<lparr>description =
            ''Canonical, Ubuntu, 18.04 LTS, amd64 bionic image build on ????-??-??'',
          owner = ''099720109477''\<rparr>)]"

record Vpc =
  VpcId :: string
  CidrBlock :: string
  State :: string

record Image =
  ImageId :: string
  CreationDate :: string

record Filter =
  Name :: string
  Values :: "string list"

datatype DescribeVpcsInput = DescribeVpcsInput "Filter list"

datatype DescribeImagesInput = DescribeImagesInput "string list" "Filter list"

text \<open>
  Modelled from the spec: \<open>awsErrorToTerminalError\<close> is defined in another file of the
  package, which is not part of the sources at hand. The spec says that it wraps the
  failure with context that names the failed operation; the constructor
  \<open>AwsErrorToTerminalError\<close> of the Go errors keeps both arguments of the call.

  Of the other errors, \<open>AwsError\<close> is an error returned by the SDK, \<open>Errorf\<close> keeps
  the format string and the arguments of a \<open>fmt.Errorf\<close> call, and
  \<open>TypeAssertionPanic\<close> is the panic of a failed type assertion \<open>x.(T)\<close> on a cached
  value.
\<close>

datatype error =
    AwsError string
  | AwsErrorToTerminalError error string
  | Errorf string "string list"
  | TypeAssertionPanic

text \<open>The store holds values of type \<open>interface{}\<close>: a VPC descriptor or a string.\<close>

datatype cached = CVpc Vpc | CString string

record EC2 =
  Region :: string
  DescribeVpcs :: "DescribeVpcsInput \<Rightarrow> error + Vpc list"
  DescribeImages :: "DescribeImagesInput \<Rightarrow> error + Image list"
  RoundTrip :: nat

text \<open>
  \<open>Region\<close> is \<open>*client.Config.Region\<close>; \<open>DescribeVpcs\<close> and \<open>DescribeImages\<close> are
  the answers of EC2 to a request made through this client, and \<open>RoundTrip\<close> is the time
  in nanoseconds that such a request takes.
\<close>

subsection \<open>The expiring store\<close>

text \<open>
  Modelled from the spec: the store is \<open>gocache.New(5*time.Minute, 5*time.Minute)\<close> of
  the library \<open>github.com/patrickmn/go-cache\<close>, which is not part of the sources at
  hand. Section 4.1 of the spec gives its contract: \<open>Set\<close> stores the value with the
  expiration \<open>now + defaultTTL\<close>; \<open>Get\<close> finds a key that was set and whose expiration
  has not passed, a read at the expiration instant or later being a miss; expired entries
  may be reclaimed by a sweep. Times are in nanoseconds.
\<close>

record Item =
  Object :: cached
  Expiration :: nat

type_synonym Cache = "string \<Rightarrow> Item option"

definition Minute :: nat where
  "Minute = 60 * 1000000000"

definition defaultExpiration :: nat where
  "defaultExpiration = 5 * Minute"

definition cache_Get :: "Cache \<Rightarrow> nat \<Rightarrow> string \<Rightarrow> cached option" where
  "cache_Get c t k =
     (case c k of
        None \<Rightarrow> None
      | Some item \<Rightarrow> if t < Expiration item then Some (Object item) else None)"

definition cache_SetDefault :: "Cache \<Rightarrow> nat \<Rightarrow> string \<Rightarrow> cached \<Rightarrow> Cache" where
  "cache_SetDefault c t k x = c(k \<mapsto> \<lparr>Object = x, Expiration = t + defaultExpiration\<rparr>)"

definition cache_DeleteExpired :: "Cache \<Rightarrow> nat \<Rightarrow> Cache" where
  "cache_DeleteExpired c t =
     (\<lambda>k. case c k of
        None \<Rightarrow> None
      | Some item \<Rightarrow> if t < Expiration item then Some item else None)"

subsection \<open>Parsing creation dates\<close>

text \<open>
  \<open>time.Parse(time.RFC3339, s)\<close> of the Go library, for the layout
  \<open>2006-01-02T15:04:05Z07:00\<close>: a four-digit year, two-digit month and day, an hour of
  one or two digits, two-digit minute and second, an optional fraction of a second, and
  the zone, \<open>Z\<close> or a signed \<open>hh:mm\<close>. The result is the instant in nanoseconds counted
  from the zero value of \<open>time.Time\<close>, which is January 1 of year 1, 00:00:00 UTC;
  \<open>None\<close> is a parse error.
\<close>

definition isDigit :: "char \<Rightarrow> bool" where
  "isDigit c = (48 \<le> (of_char c :: nat) \<and> (of_char c :: nat) \<le> 57)"

definition digitVal :: "char \<Rightarrow> int" where
  "digitVal c = int (of_char c) - 48"

fun getnum :: "string \<Rightarrow> bool \<Rightarrow> (int \<times> string) option" where
  "getnum (a # b # rest) fixed =
     (if \<not> isDigit a then None
      else if \<not> isDigit b then (if fixed then None else Some (digitVal a, b # rest))
      else Some (digitVal a * 10 + digitVal b, rest))"
| "getnum [a] fixed =
     (if \<not> isDigit a then None else if fixed then None else Some (digitVal a, []))"
| "getnum [] fixed = None"

fun getyear :: "string \<Rightarrow> (int \<times> string) option" where
  "getyear (a # b # c # d # rest) =
     (if isDigit a \<and> isDigit b \<and> isDigit c \<and> isDigit d
      then Some (((digitVal a * 10 + digitVal b) * 10 + digitVal c) * 10 + digitVal d, rest)
      else None)"
| "getyear _ = None"

fun skip :: "char \<Rightarrow> string \<Rightarrow> string option" where
  "skip c (x # xs) = (if x = c then Some xs else None)"
| "skip c [] = None"

fun digitsVal :: "string \<Rightarrow> int" where
  "digitsVal [] = 0"
| "digitsVal (c # cs) = digitVal c * 10 ^ length cs + digitsVal cs"

text \<open>The fraction after the seconds: at most nine digits count, as nanoseconds.\<close>

definition getfraction :: "string \<Rightarrow> int \<times> string" where
  "getfraction s =
     (case s of
        p # d # rest \<Rightarrow>
          if p = CHR ''.'' \<and> isDigit d
          then (let ds = takeWhile isDigit (d # rest);
                    ns = take 9 ds
                in (digitsVal ns * 10 ^ (9 - length ns), dropWhile isDigit (d # rest)))
          else (0, s)
      | _ \<Rightarrow> (0, s))"

text \<open>The zone: the offset east of UTC in seconds, and the rest of the input.\<close>

definition getzone :: "string \<Rightarrow> (int \<times> string) option" where
  "getzone s =
     (case s of
        [] \<Rightarrow> None
      | z # rest \<Rightarrow>
          if z = CHR ''Z'' then Some (0, rest)
          else if length rest < 5 \<or> rest ! 2 \<noteq> CHR '':'' then None
          else Option.bind (getnum (take 2 rest) True) (\<lambda>(hr, _).
               Option.bind (getnum (take 2 (drop 3 rest)) True) (\<lambda>(mm, _).
               if hr > 24 \<or> mm > 60 then None
               else if z = CHR ''+'' then Some ((hr * 60 + mm) * 60, drop 5 rest)
               else if z = CHR ''-'' then Some (- ((hr * 60 + mm) * 60), drop 5 rest)
               else None)))"

definition isLeap :: "int \<Rightarrow> bool" where
  "isLeap year = (year mod 4 = 0 \<and> (year mod 100 \<noteq> 0 \<or> year mod 400 = 0))"

definition daysIn :: "int \<Rightarrow> int \<Rightarrow> int" where
  "daysIn month year =
     (if month = 2 then (if isLeap year then 29 else 28)
      else if month = 4 \<or> month = 6 \<or> month = 9 \<or> month = 11 then 30 else 31)"

definition daysBefore :: "int \<Rightarrow> int" where
  "daysBefore month =
     [0, 31, 59, 90, 120, 151, 181, 212, 243, 273, 304, 334] ! nat (month - 1)"

text \<open>Days from January 1 of year 1 to the given date of the proleptic Gregorian calendar.\<close>

definition daysSinceEpoch :: "int \<Rightarrow> int \<Rightarrow> int \<Rightarrow> int" where
  "daysSinceEpoch year month day =
     (let y = year - 1
      in 365 * y + y div 4 - y div 100 + y div 400
         + daysBefore month + (if isLeap year \<and> month > 2 then 1 else 0)
         + (day - 1))"

text \<open>The date part \<open>2006-01-02\<close>: year, month and day, and the rest of the input.\<close>

definition parseDate :: "string \<Rightarrow> ((int \<times> int \<times> int) \<times> string) option" where
  "parseDate value =
     Option.bind (getyear value) (\<lambda>(year, v1).
     Option.bind (skip CHR ''-'' v1) (\<lambda>v2.
     Option.bind (getnum v2 True) (\<lambda>(month, v3).
     if month \<le> 0 \<or> 12 < month then None else
     Option.bind (skip CHR ''-'' v3) (\<lambda>v4.
     Option.bind (getnum v4 True) (\<lambda>(day, v5).
     Some ((year, month, day), v5))))))"

text \<open>The clock part \<open>15:04:05\<close> with its fraction: seconds and nanoseconds.\<close>

definition parseClock :: "string \<Rightarrow> ((int \<times> int) \<times> string) option" where
  "parseClock value =
     Option.bind (getnum value False) (\<lambda>(hour, v7).
     if 24 \<le> hour then None else
     Option.bind (skip CHR '':'' v7) (\<lambda>v8.
     Option.bind (getnum v8 True) (\<lambda>(min, v9).
     if 60 \<le> min then None else
     Option.bind (skip CHR '':'' v9) (\<lambda>v10.
     Option.bind (getnum v10 True) (\<lambda>(sec, v11).
     if 60 \<le> sec then None else
     (let (nsec, v12) = getfraction v11
      in Some ((hour * 3600 + min * 60 + sec, nsec), v12)))))))"

definition time_Parse :: "string \<Rightarrow> int option" where
  "time_Parse value =
     Option.bind (parseDate value) (\<lambda>((year, month, day), v5).
     Option.bind (skip CHR ''T'' v5) (\<lambda>v6.
     Option.bind (parseClock v6) (\<lambda>((secs, nsec), v12).
     Option.bind (getzone v12) (\<lambda>(zoneOffset, v13).
     if v13 \<noteq> [] then None
     else if day < 1 \<or> day > daysIn month year then None
     else Some ((daysSinceEpoch year month day * 86400 + secs - zoneOffset) * 1000000000
                + nsec)))))"

text \<open>
  \<open>t, _ := time.Parse(time.RFC3339, s)\<close>: the error is dropped, and with an error the
  time is the zero value of \<open>time.Time\<close>, the instant 0.
\<close>

definition parsedTime :: "string \<Rightarrow> int" where
  "parsedTime s = (case time_Parse s of None \<Rightarrow> 0 | Some t \<Rightarrow> t)"

definition After :: "int \<Rightarrow> int \<Rightarrow> bool" where
  "After t u = (t > u)"

subsection \<open>The shared state\<close>

datatype event =
    EvLock
  | EvUnlock
  | EvGet string
  | EvSetDefault string cached
  | EvDescribeVpcs string DescribeVpcsInput
  | EvDescribeImages string DescribeImagesInput

text \<open>
  \<open>cacheLock\<close> is true while the mutex is held, \<open>cache\<close> is the content of the store,
  \<open>now\<close> the clock in nanoseconds, \<open>trace\<close> the actions so far, oldest first. A request
  to EC2 is recorded with the region of the client and the input of the request.
\<close>

record state =
  cacheLock :: bool
  cache :: Cache
  now :: nat
  trace :: "event list"

definition emit :: "event \<Rightarrow> state \<Rightarrow> state" where
  "emit e s = s\<lparr>trace := trace s @ [e]\<rparr>"

definition Get :: "string \<Rightarrow> state \<Rightarrow> cached option \<times> state" where
  "Get k s = (cache_Get (cache s) (now s) k, emit (EvGet k) s)"

definition SetDefault :: "string \<Rightarrow> cached \<Rightarrow> state \<Rightarrow> state" where
  "SetDefault k x s =
     emit (EvSetDefault k x) (s\<lparr>cache := cache_SetDefault (cache s) (now s) k x\<rparr>)"

text \<open>A request takes the round-trip time of the client and leaves its mark in the trace.\<close>

definition request :: "EC2 \<Rightarrow> event \<Rightarrow> state \<Rightarrow> state" where
  "request client e s = emit e (s\<lparr>now := now s + RoundTrip client\<rparr>)"

subsection \<open>getVpc\<close>

definition vpcCacheKey :: "string \<Rightarrow> string \<Rightarrow> string" where
  "vpcCacheKey region id' = ''vpc-'' @ region @ ''-'' @ id'"

definition vpcInput :: "string \<Rightarrow> DescribeVpcsInput" where
  "vpcInput id' = DescribeVpcsInput [\<lparr>Name = ''vpc-id'', Values = [id']\<rparr>]"

text \<open>The body of \<open>getVpc\<close>, lines 96 to 117, which runs while the mutex is held.\<close>

definition getVpc_locked :: "EC2 \<Rightarrow> string \<Rightarrow> state \<Rightarrow> (error + Vpc) \<times> state" where
  "getVpc_locked client id' s =
     (let cacheKey = vpcCacheKey (Region client) id';
          (found, s1) = Get cacheKey s
      in case found of
           Some vpc \<Rightarrow>
             (case vpc of
                CVpc v \<Rightarrow> (Inr v, s1)
              | CString _ \<Rightarrow> (Inl TypeAssertionPanic, s1))
         | None \<Rightarrow>
             (let s2 = request client (EvDescribeVpcs (Region client) (vpcInput id')) s1
              in case DescribeVpcs client (vpcInput id') of
                   Inl err \<Rightarrow> (Inl (AwsErrorToTerminalError err ''failed to list vpc's''), s2)
                 | Inr Vpcs \<Rightarrow>
                     if length Vpcs \<noteq> 1
                     then (Inl (Errorf ''unable to find specified vpc with id %q'' [id']), s2)
                     else (Inr (Vpcs ! 0), SetDefault cacheKey (CVpc (Vpcs ! 0)) s2)))"

text \<open>
  \<open>cacheLock.Lock()\<close> does not return while the mutex is held: the call is then \<open>None\<close>.
  The deferred \<open>Unlock\<close> runs on every way out of the body, a panic included.
\<close>

definition locked :: "(state \<Rightarrow> 'a \<times> state) \<Rightarrow> state \<Rightarrow> ('a \<times> state) option" where
  "locked body s =
     (if cacheLock s then None
      else (let (r, s') = body (emit EvLock (s\<lparr>cacheLock := True\<rparr>))
            in Some (r, emit EvUnlock (s'\<lparr>cacheLock := False\<rparr>))))"

definition getVpc :: "EC2 \<Rightarrow> string \<Rightarrow> state \<Rightarrow> ((error + Vpc) \<times> state) option" where
  "getVpc client id' = locked (getVpc_locked client id')"

subsection \<open>getDefaultAMIID\<close>

definition amiCacheKey :: "string \<Rightarrow> OperatingSystem \<Rightarrow> string" where
  "amiCacheKey region os = ''ami-id-'' @ region @ ''-'' @ os"

definition imagesInput :: "amiFilter \<Rightarrow> DescribeImagesInput" where
  "imagesInput filter' =
     DescribeImagesInput [owner filter']
       [\<lparr>Name = ''description'', Values = [description filter']\<rparr>,
        \<lparr>Name = ''virtualization-type'', Values = [''hvm'']\<rparr>,
        \<lparr>Name = ''root-device-type'', Values = [''ebs'']\<rparr>]"

text \<open>
  The loop of lines 166 to 172 over the candidates still to visit; \<open>image'\<close> (the variable \<open>image\<close>) is the best
  candidate so far.
\<close>

fun newestImage :: "Image \<Rightarrow> Image list \<Rightarrow> Image" where
  "newestImage image' [] = image'"
| "newestImage image' (v # vs) =
     (let itime = parsedTime (CreationDate image');
          vtime = parsedTime (CreationDate v)
      in newestImage (if After vtime itime then v else image') vs)"

text \<open>
  The body of \<open>getDefaultAMIID\<close>, lines 129 to 175, which runs while the mutex is held.
  The format of the last error is \<open>could not find Image for '%s'\<close>.
\<close>

definition getDefaultAMIID_locked ::
  "EC2 \<Rightarrow> OperatingSystem \<Rightarrow> state \<Rightarrow> (error + string) \<times> state" where
  "getDefaultAMIID_locked client os s =
     (case amiFilters os of
        None \<Rightarrow> (Inl (Errorf ''operating system %q not supported'' [os]), s)
      | Some filter' \<Rightarrow>
          (let cacheKey = amiCacheKey (Region client) os;
               (found, s1) = Get cacheKey s
           in case found of
                Some amiID \<Rightarrow>
                  (case amiID of
                     CString a \<Rightarrow> (Inr a, s1)
                   | CVpc _ \<Rightarrow> (Inl TypeAssertionPanic, s1))
              | None \<Rightarrow>
                  (let s2 = request client
                              (EvDescribeImages (Region client) (imagesInput filter')) s1
                   in case DescribeImages client (imagesInput filter') of
                        Inl err \<Rightarrow> (Inl err, s2)
                      | Inr Images \<Rightarrow>
                          (case Images of
                             [] \<Rightarrow>
                               (Inl (Errorf (''could not find Image for '%s'' @ [CHR 0x27]) [os]),
                                s2)
                           | first # _ \<Rightarrow>
                               (let image' = newestImage first Images
                                in (Inr (ImageId image'),
                                    SetDefault cacheKey (CString (ImageId image')) s2))))))"

definition getDefaultAMIID ::
  "EC2 \<Rightarrow> OperatingSystem \<Rightarrow> state \<Rightarrow> ((error + string) \<times> state) option" where
  "getDefaultAMIID client os = locked (getDefaultAMIID_locked client os)"

subsection \<open>Concurrent callers\<close>

text \<open>
  For callers that run at the same time the two bodies are written once more as sequences
  of atomic actions on the shared state: a read of the store, a request to EC2, a write to
  the store, and the return. \<open>exec\<close> runs such a sequence without interruption.
\<close>

datatype call = VpcsCall DescribeVpcsInput | ImagesCall DescribeImagesInput

fun call_event :: "EC2 \<Rightarrow> call \<Rightarrow> event" where
  "call_event client (VpcsCall input) = EvDescribeVpcs (Region client) input"
| "call_event client (ImagesCall input) = EvDescribeImages (Region client) input"

datatype 'r prog =
    Ret 'r
  | DoGet string "cached option \<Rightarrow> 'r prog"
  | DoRequest EC2 call "'r prog"
  | DoSetDefault string cached "'r prog"

primrec exec :: "'r prog \<Rightarrow> state \<Rightarrow> 'r \<times> state" where
  "exec (Ret r) s = (r, s)"
| "exec (DoGet k f) s = exec (f (fst (Get k s))) (snd (Get k s))"
| "exec (DoRequest client rq p) s = exec p (request client (call_event client rq) s)"
| "exec (DoSetDefault k x p) s = exec p (SetDefault k x s)"

definition getVpc_prog :: "EC2 \<Rightarrow> string \<Rightarrow> (error + Vpc) prog" where
  "getVpc_prog client id' =
     (let cacheKey = vpcCacheKey (Region client) id'
      in DoGet cacheKey (\<lambda>found.
           case found of
             Some vpc \<Rightarrow>
               (case vpc of
                  CVpc v \<Rightarrow> Ret (Inr v)
                | CString _ \<Rightarrow> Ret (Inl TypeAssertionPanic))
           | None \<Rightarrow>
               DoRequest client (VpcsCall (vpcInput id'))
                 (case DescribeVpcs client (vpcInput id') of
                    Inl err \<Rightarrow> Ret (Inl (AwsErrorToTerminalError err ''failed to list vpc's''))
                  | Inr Vpcs \<Rightarrow>
                      if length Vpcs \<noteq> 1
                      then Ret (Inl (Errorf ''unable to find specified vpc with id %q'' [id']))
                      else DoSetDefault cacheKey (CVpc (Vpcs ! 0)) (Ret (Inr (Vpcs ! 0))))))"

definition getDefaultAMIID_prog :: "EC2 \<Rightarrow> OperatingSystem \<Rightarrow> (error + string) prog" where
  "getDefaultAMIID_prog client os =
     (case amiFilters os of
        None \<Rightarrow> Ret (Inl (Errorf ''operating system %q not supported'' [os]))
      | Some filter' \<Rightarrow>
          (let cacheKey = amiCacheKey (Region client) os
           in DoGet cacheKey (\<lambda>found.
                case found of
                  Some amiID \<Rightarrow>
                    (case amiID of
                       CString a \<Rightarrow> Ret (Inr a)
                     | CVpc _ \<Rightarrow> Ret (Inl TypeAssertionPanic))
                | None \<Rightarrow>
                    DoRequest client (ImagesCall (imagesInput filter'))
                      (case DescribeImages client (imagesInput filter') of
                         Inl err \<Rightarrow> Ret (Inl err)
                       | Inr Images \<Rightarrow>
                           (case Images of
                              [] \<Rightarrow>
                                Ret (Inl (Errorf (''could not find Image for '%s'' @ [CHR 0x27])
                                            [os]))
                            | first # _ \<Rightarrow>
                                (let image' = newestImage first Images
                                 in DoSetDefault cacheKey (CString (ImageId image'))
                                      (Ret (Inr (ImageId image')))))))))"

text \<open>
  A caller waits for the mutex, runs its actions one at a time while it holds the mutex,
  and has returned once the deferred \<open>Unlock\<close> has run. A step of a caller that cannot
  move (it waits for a mutex that is held, or it has returned) is \<open>None\<close>.
\<close>

datatype 'r thread = Waiting | Running "'r prog" | Returned 'r

fun thread_step :: "'r prog \<Rightarrow> 'r thread \<Rightarrow> state \<Rightarrow> ('r thread \<times> state) option" where
  "thread_step P Waiting s =
     (if cacheLock s then None else Some (Running P, emit EvLock (s\<lparr>cacheLock := True\<rparr>)))"
| "thread_step P (Running (DoGet k f)) s = Some (Running (f (fst (Get k s))), snd (Get k s))"
| "thread_step P (Running (DoRequest client rq p)) s =
     Some (Running p, request client (call_event client rq) s)"
| "thread_step P (Running (DoSetDefault k x p)) s = Some (Running p, SetDefault k x s)"
| "thread_step P (Running (Ret r)) s =
     Some (Returned r, emit EvUnlock (s\<lparr>cacheLock := False\<rparr>))"
| "thread_step P (Returned r) s = None"

text \<open>
  A schedule interleaves the steps of the callers, all of which make the call \<open>P\<close>, with
  the passing of time: \<open>Step i\<close> is one step of caller \<open>i\<close>, \<open>Tick d\<close> lets \<open>d\<close>
  nanoseconds pass.
\<close>

datatype action = Step nat | Tick nat

fun run ::
  "'r prog \<Rightarrow> action list \<Rightarrow> 'r thread list \<times> state \<Rightarrow> ('r thread list \<times> state) option" where
  "run P [] c = Some c"
| "run P (Step i # acts) (ts, s) =
     (if i < length ts
      then (case thread_step P (ts ! i) s of
              None \<Rightarrow> None
            | Some (t', s') \<Rightarrow> run P acts (ts[i := t'], s'))
      else None)"
| "run P (Tick d # acts) (ts, s) = run P acts (ts, s\<lparr>now := now s + d\<rparr>)"

subsection \<open>Observations on traces\<close>

fun isRequest :: "event \<Rightarrow> bool" where
  "isRequest (EvDescribeVpcs _ _) = True"
| "isRequest (EvDescribeImages _ _) = True"
| "isRequest _ = False"

definition requests :: "event list \<Rightarrow> nat" where
  "requests tr = length (filter isRequest tr)"

text \<open>The actions of a call: what the trace has gained from \<open>s\<close> to \<open>s'\<close>.\<close>

definition actions :: "state \<Rightarrow> state \<Rightarrow> event list" where
  "actions s s' = drop (length (trace s)) (trace s')"

text \<open>
  \<open>held_after held tr\<close> follows the mutex through the trace \<open>tr\<close>, which starts with
  the mutex held or not as \<open>held\<close> says. It is \<open>None\<close> if the trace locks a mutex that
  is held, unlocks one that is free, or reads the store, writes it or asks EC2 while the
  mutex is free; otherwise it says whether the mutex is held at the end.
\<close>

fun held_after :: "bool \<Rightarrow> event list \<Rightarrow> bool option" where
  "held_after held [] = Some held"
| "held_after held (EvLock # tr) = (if held then None else held_after True tr)"
| "held_after held (EvUnlock # tr) = (if held then held_after False tr else None)"
| "held_after held (e # tr) = (if held then held_after held tr else None)"

definition outcome :: "'r thread list \<times> state \<Rightarrow> 'r thread list \<times> nat" where
  "outcome c = (fst c, requests (trace (snd c)))"

subsection \<open>Invariants of a race\<close>

text \<open>
  The callers of a race all ask for the key \<open>k\<close>, which is absent at the start time
  \<open>t0\<close>, when the trace holds \<open>q0\<close> requests; the request \<open>rq\<close> through \<open>client\<close>
  succeeds, \<open>v\<close> is then returned and \<open>obj\<close> stored. \<open>exclusive\<close> says that the mutex
  is held exactly when a caller is between \<open>Lock\<close> and \<open>Unlock\<close>, and that there is at
  most one such caller. \<open>coalesced\<close> relates the position of each caller to the store and
  to the number of requests made so far.
\<close>

fun isRunning :: "'r thread \<Rightarrow> bool" where
  "isRunning (Running p) = True"
| "isRunning _ = False"

definition exclusive :: "'r thread list \<times> state \<Rightarrow> bool" where
  "exclusive c =
     (case c of (ts, s) \<Rightarrow>
        (cacheLock s \<longleftrightarrow> (\<exists>j<length ts. isRunning (ts ! j)))
        \<and> (\<forall>i<length ts. \<forall>j<length ts. isRunning (ts ! i) \<and> isRunning (ts ! j) \<longrightarrow> i = j))"

definition populated :: "string \<Rightarrow> cached \<Rightarrow> nat \<Rightarrow> state \<Rightarrow> bool" where
  "populated k obj t0 s =
     (\<exists>e. cache s k = Some \<lparr>Object = obj, Expiration = e\<rparr> \<and> t0 + defaultExpiration \<le> e)"

definition unpopulated :: "string \<Rightarrow> nat \<Rightarrow> state \<Rightarrow> bool" where
  "unpopulated k t0 s = (cache_Get (cache s) t0 k = None)"

definition idle_ok :: "string \<Rightarrow> cached \<Rightarrow> nat \<Rightarrow> nat \<Rightarrow> state \<Rightarrow> bool" where
  "idle_ok k obj t0 q0 s =
     (unpopulated k t0 s \<and> requests (trace s) = q0
      \<or> populated k obj t0 s \<and> requests (trace s) = q0 + 1)"

definition thread_ok ::
  "string \<Rightarrow> cached \<Rightarrow> 'a \<Rightarrow> EC2 \<Rightarrow> call \<Rightarrow> nat \<Rightarrow> nat \<Rightarrow> (error + 'a) prog \<Rightarrow> state \<Rightarrow>
   (error + 'a) thread \<Rightarrow> bool" where
  "thread_ok k obj v client rq t0 q0 P s t =
     (case t of
        Waiting \<Rightarrow> True
      | Returned r \<Rightarrow> r = Inr v \<and> populated k obj t0 s
      | Running p \<Rightarrow>
          p = P \<and> idle_ok k obj t0 q0 s
          \<or> p = DoRequest client rq (DoSetDefault k obj (Ret (Inr v)))
              \<and> unpopulated k t0 s \<and> requests (trace s) = q0
          \<or> p = DoSetDefault k obj (Ret (Inr v))
              \<and> unpopulated k t0 s \<and> requests (trace s) = q0 + 1
          \<or> p = Ret (Inr v) \<and> populated k obj t0 s \<and> requests (trace s) = q0 + 1)"

definition coalesced ::
  "string \<Rightarrow> cached \<Rightarrow> 'a \<Rightarrow> EC2 \<Rightarrow> call \<Rightarrow> nat \<Rightarrow> nat \<Rightarrow> (error + 'a) prog \<Rightarrow>
   (error + 'a) thread list \<times> state \<Rightarrow> bool" where
  "coalesced k obj v client rq t0 q0 P c =
     (case c of (ts, s) \<Rightarrow>
        t0 \<le> now s
        \<and> (\<forall>j<length ts. thread_ok k obj v client rq t0 q0 P s (ts ! j))
        \<and> (\<not> cacheLock s \<longrightarrow> idle_ok k obj t0 q0 s))"

text \<open>
  For a race in which the lookup fails with the error \<open>e\<close>: \<open>past_request\<close> holds of a
  caller that has made its request, and \<open>refused\<close> says that the store is still \<open>c0\<close>
  and that the trace holds one request for each such caller, besides the \<open>q0\<close> requests
  of the start.
\<close>

fun isReturned :: "'r thread \<Rightarrow> bool" where
  "isReturned (Returned r) = True"
| "isReturned _ = False"

definition past_request :: "error \<Rightarrow> (error + 'a) thread \<Rightarrow> bool" where
  "past_request e t = (t = Running (Ret (Inl e)) \<or> t = Returned (Inl e))"

definition refused ::
  "string \<Rightarrow> error \<Rightarrow> EC2 \<Rightarrow> call \<Rightarrow> nat \<Rightarrow> nat \<Rightarrow> Cache \<Rightarrow> (error + 'a) prog \<Rightarrow>
   (error + 'a) thread list \<times> state \<Rightarrow> bool" where
  "refused k e client rq t0 q0 c0 P c =
     (case c of (ts, s) \<Rightarrow>
        t0 \<le> now s
        \<and> cache s = c0
        \<and> (\<forall>t \<in> set ts. t \<in> {Waiting, Running P, Running (DoRequest client rq (Ret (Inl e))),
                               Running (Ret (Inl e)), Returned (Inl e)})
        \<and> requests (trace s) = q0 + length (filter (past_request e) ts))"

subsection \<open>Example inputs\<close>

definition exampleState :: state where
  "exampleState = \<lparr>cacheLock = False, cache = Map.empty, now = 1000, trace = []\<rparr>"

definition exampleClient :: "(error + Vpc list) \<Rightarrow> (error + Image list) \<Rightarrow> EC2" where
  "exampleClient vpcs images =
     \<lparr>Region = ''eu-west-1'', DescribeVpcs = (\<lambda>_. vpcs), DescribeImages = (\<lambda>_. images),
      RoundTrip = 250\<rparr>"

definition vpcA :: Vpc where
  "vpcA = \<lparr>VpcId = ''vpc-a'', CidrBlock = ''10.0.0.0/16'', State = ''available''\<rparr>"

definition vpcB :: Vpc where
  "vpcB = \<lparr>VpcId = ''vpc-a'', CidrBlock = ''10.1.0.0/16'', State = ''available''\<rparr>"

definition threeImages :: "Image list" where
  "threeImages =
     [\<lparr>ImageId = ''ami-2020'', CreationDate = ''2020-01-01T00:00:00Z''\<rparr>,
      \<lparr>ImageId = ''ami-2021'', CreationDate = ''2021-06-15T00:00:00Z''\<rparr>,
      \<lparr>ImageId = ''ami-garbage'', CreationDate = ''garbage''\<rparr>]"

definition garbageImages :: "Image list" where
  "garbageImages =
     [\<lparr>ImageId = ''ami-first'', CreationDate = ''garbage''\<rparr>,
      \<lparr>ImageId = ''ami-second'', CreationDate = ''yesterday''\<rparr>]"

definition ancientImages :: "Image list" where
  "ancientImages =
     [\<lparr>ImageId = ''ami-ancient'', CreationDate = ''0001-01-01T00:00:00+01:00''\<rparr>,
      \<lparr>ImageId = ''ami-garbage'', CreationDate = ''garbage''\<rparr>]"

section \<open>Properties\<close>

subsection \<open>State primitives\<close>

lemma emit_simps [simp]:
  "cacheLock (emit e s) = cacheLock s" "cache (emit e s) = cache s"
  "now (emit e s) = now s" "trace (emit e s) = trace s @ [e]"
  by (simp_all add: emit_def)

lemma SetDefault_simps [simp]:
  "cacheLock (SetDefault k x s) = cacheLock s"
  "cache (SetDefault k x s) = cache_SetDefault (cache s) (now s) k x"
  "now (SetDefault k x s) = now s"
  "trace (SetDefault k x s) = trace s @ [EvSetDefault k x]"
  by (simp_all add: SetDefault_def)

lemma request_simps [simp]:
  "cacheLock (request c e s) = cacheLock s" "cache (request c e s) = cache s"
  "now (request c e s) = now s + RoundTrip c" "trace (request c e s) = trace s @ [e]"
  by (simp_all add: request_def)

lemma Get_simps [simp]:
  "fst (Get k s) = cache_Get (cache s) (now s) k" "snd (Get k s) = emit (EvGet k) s"
  by (simp_all add: Get_def)

lemma actions_append [simp]: "trace s' = trace s @ es \<Longrightarrow> actions s s' = es"
  by (simp add: actions_def)

text \<open>What a call does when the store has no live entry under its key.\<close>

lemma getVpc_locked_miss:
  assumes "cache_Get (cache s) (now s) (vpcCacheKey (Region client) id') = None"
  shows "getVpc_locked client id' s =
    (let s2 = request client (EvDescribeVpcs (Region client) (vpcInput id'))
                (emit (EvGet (vpcCacheKey (Region client) id')) s)
     in case DescribeVpcs client (vpcInput id') of
          Inl err \<Rightarrow> (Inl (AwsErrorToTerminalError err ''failed to list vpc's''), s2)
        | Inr Vpcs \<Rightarrow>
            if length Vpcs \<noteq> 1
            then (Inl (Errorf ''unable to find specified vpc with id %q'' [id']), s2)
            else (Inr (Vpcs ! 0),
                  SetDefault (vpcCacheKey (Region client) id') (CVpc (Vpcs ! 0)) s2))"
  using assms by (simp add: getVpc_locked_def Get_def Let_def)

lemma getDefaultAMIID_locked_miss:
  assumes "amiFilters os = Some filter'"
    and "cache_Get (cache s) (now s) (amiCacheKey (Region client) os) = None"
  shows "getDefaultAMIID_locked client os s =
    (let s2 = request client (EvDescribeImages (Region client) (imagesInput filter'))
                (emit (EvGet (amiCacheKey (Region client) os)) s)
     in case DescribeImages client (imagesInput filter') of
          Inl err \<Rightarrow> (Inl err, s2)
        | Inr Images \<Rightarrow>
            (case Images of
               [] \<Rightarrow> (Inl (Errorf (''could not find Image for '%s'' @ [CHR 0x27]) [os]), s2)
             | first # _ \<Rightarrow>
                 (Inr (ImageId (newestImage first Images)),
                  SetDefault (amiCacheKey (Region client) os)
                    (CString (ImageId (newestImage first Images))) s2)))"
  using assms
  by (simp add: getDefaultAMIID_locked_def Get_def Let_def split: sum.split list.split)

lemma locked_unfold:
  "locked body s =
     (if cacheLock s then None
      else Some (fst (body (emit EvLock (s\<lparr>cacheLock := True\<rparr>))),
                 emit EvUnlock ((snd (body (emit EvLock (s\<lparr>cacheLock := True\<rparr>))))
                                  \<lparr>cacheLock := False\<rparr>)))"
  by (simp add: locked_def Let_def split: prod.splits)

lemma cache_Get_later:
  "cache_Get c t k = None \<Longrightarrow> t \<le> t' \<Longrightarrow> cache_Get c t' k = None"
  by (auto simp: cache_Get_def split: option.splits if_splits)

lemma exampleState_miss [simp]: "cache_Get (cache exampleState) t k = None"
  by (simp add: exampleState_def cache_Get_def)

lemma exampleClient_simps [simp]:
  "Region (exampleClient v i) = ''eu-west-1''"
  "DescribeVpcs (exampleClient v i) x = v"
  "DescribeImages (exampleClient v i) y = i"
  "RoundTrip (exampleClient v i) = 250"
  by (simp_all add: exampleClient_def)

subsection \<open>Ambiguous and missing networks\<close>

text \<open>
  Claim C5. When \<open>getVpc\<close> misses the store and \<open>DescribeVpcs\<close> answers with a list
  whose length is not one (no descriptor, or two and more), the call returns the error
  \<open>unable to find specified vpc\<close>, the store is as before, and the call has locked, read
  the store, asked EC2 and unlocked, without a write. A call that misses the store succeeds
  only if the answer is a list of exactly one descriptor, the one returned.
\<close>

theorem getVpc_rejects_ambiguity:
  assumes "\<not> cacheLock s"
    and "cache_Get (cache s) (now s) (vpcCacheKey (Region client) id') = None"
  shows "(\<forall>Vpcs. DescribeVpcs client (vpcInput id') = Inr Vpcs \<and> length Vpcs \<noteq> 1 \<longrightarrow>
            (\<exists>s'. getVpc client id' s =
                    Some (Inl (Errorf ''unable to find specified vpc with id %q'' [id']), s')
                  \<and> cache s' = cache s
                  \<and> actions s s' = [EvLock, EvGet (vpcCacheKey (Region client) id'),
                       EvDescribeVpcs (Region client) (vpcInput id'), EvUnlock]))
       \<and> (\<forall>v s'. getVpc client id' s = Some (Inr v, s') \<longrightarrow>
            DescribeVpcs client (vpcInput id') = Inr [v])"
proof (intro conjI allI impI)
  fix Vpcs assume "DescribeVpcs client (vpcInput id') = Inr Vpcs \<and> length Vpcs \<noteq> 1"
  with assms show "\<exists>s'. getVpc client id' s =
                    Some (Inl (Errorf ''unable to find specified vpc with id %q'' [id']), s')
                  \<and> cache s' = cache s
                  \<and> actions s s' = [EvLock, EvGet (vpcCacheKey (Region client) id'),
                       EvDescribeVpcs (Region client) (vpcInput id'), EvUnlock]"
    by (simp add: getVpc_def locked_unfold getVpc_locked_miss Let_def)
next
  fix v s' assume "getVpc client id' s = Some (Inr v, s')"
  with assms show "DescribeVpcs client (vpcInput id') = Inr [v]"
    by (auto simp: getVpc_def locked_unfold getVpc_locked_miss Let_def length_Suc_conv
          split: sum.splits if_splits)
qed

theorem getVpc_rejects_ambiguity_witness:
  "\<not> cacheLock exampleState
   \<and> cache_Get (cache exampleState) (now exampleState)
         (vpcCacheKey (Region (exampleClient (Inr [vpcA, vpcB]) (Inr []))) ''vpc-a'') = None
   \<and> DescribeVpcs (exampleClient (Inr [vpcA, vpcB]) (Inr [])) (vpcInput ''vpc-a'')
         = Inr [vpcA, vpcB]
   \<and> length [vpcA, vpcB] \<noteq> 1
   \<and> (\<exists>s'. getVpc (exampleClient (Inr [vpcA, vpcB]) (Inr [])) ''vpc-a'' exampleState
               = Some (Inl (Errorf ''unable to find specified vpc with id %q'' [''vpc-a'']), s')
            \<and> cache s' = cache exampleState
            \<and> actions exampleState s'
                = [EvLock, EvGet (vpcCacheKey ''eu-west-1'' ''vpc-a''),
                   EvDescribeVpcs ''eu-west-1'' (vpcInput ''vpc-a''), EvUnlock])"
proof -
  let ?c = "exampleClient (Inr [vpcA, vpcB]) (Inr [])"
  have free: "\<not> cacheLock exampleState" by (simp add: exampleState_def)
  have miss: "cache_Get (cache exampleState) (now exampleState)
                (vpcCacheKey (Region ?c) ''vpc-a'') = None" by simp
  have resp: "DescribeVpcs ?c (vpcInput ''vpc-a'') = Inr [vpcA, vpcB] \<and> length [vpcA, vpcB] \<noteq> 1"
    by simp
  from getVpc_rejects_ambiguity [OF free miss] resp free miss show ?thesis
    by simp
qed

subsection \<open>The loop over the candidates\<close>

lemma newestImage_mem: "newestImage i vs \<in> set (i # vs)"
  by (induction vs arbitrary: i) (auto simp: Let_def)

lemma newestImage_keeps:
  "\<forall>v \<in> set vs. \<not> After (parsedTime (CreationDate v)) (parsedTime (CreationDate i)) \<Longrightarrow>
   newestImage i vs = i"
  by (induction vs arbitrary: i) (auto simp: Let_def)

lemma newestImage_ge_start:
  "parsedTime (CreationDate i) \<le> parsedTime (CreationDate (newestImage i vs))"
proof (induction vs arbitrary: i)
  case Nil
  show ?case by simp
next
  case (Cons v vs)
  show ?case
  proof (cases "After (parsedTime (CreationDate v)) (parsedTime (CreationDate i))")
    case True
    with Cons [of v] show ?thesis by (simp add: Let_def After_def)
  next
    case False
    with Cons [of i] show ?thesis by (simp add: Let_def)
  qed
qed

lemma newestImage_max:
  "v \<in> set (i # vs) \<Longrightarrow>
   parsedTime (CreationDate v) \<le> parsedTime (CreationDate (newestImage i vs))"
proof (induction vs arbitrary: i)
  case Nil
  then show ?case by simp
next
  case (Cons w ws)
  let ?j = "if After (parsedTime (CreationDate w)) (parsedTime (CreationDate i)) then w else i"
  have eq: "newestImage i (w # ws) = newestImage ?j ws" by (simp add: Let_def)
  have start: "parsedTime (CreationDate ?j) \<le> parsedTime (CreationDate (newestImage ?j ws))"
    by (rule newestImage_ge_start)
  consider "v = i" | "v = w" | "v \<in> set ws" using Cons.prems by auto
  then show ?case
  proof cases
    case 1
    with start show ?thesis unfolding eq by (auto simp: After_def split: if_splits)
  next
    case 2
    with start show ?thesis unfolding eq by (auto simp: After_def split: if_splits)
  next
    case 3
    then have "v \<in> set (?j # ws)" by simp
    from Cons.IH [OF this] show ?thesis unfolding eq .
  qed
qed

subsection \<open>Candidates without a readable creation date\<close>

text \<open>
  Claim C9. When \<open>getDefaultAMIID\<close> misses the store for a supported operating system and
  \<open>DescribeImages\<close> answers with a non-empty list in which no creation date parses, the
  call succeeds and returns the image id of the first candidate of the list.
\<close>

theorem getDefaultAMIID_all_unparseable:
  assumes "\<not> cacheLock s"
    and "amiFilters os = Some filter'"
    and "cache_Get (cache s) (now s) (amiCacheKey (Region client) os) = None"
    and "DescribeImages client (imagesInput filter') = Inr (first # rest)"
    and "\<forall>v \<in> set (first # rest). time_Parse (CreationDate v) = None"
  shows "\<exists>s'. getDefaultAMIID client os s = Some (Inr (ImageId first), s')"
proof -
  from assms(5) have "\<forall>v \<in> set (first # rest).
      \<not> After (parsedTime (CreationDate v)) (parsedTime (CreationDate first))"
    by (simp add: parsedTime_def After_def)
  then have "newestImage first (first # rest) = first"
    by (rule newestImage_keeps)
  with assms(1-4) show ?thesis
    by (simp add: getDefaultAMIID_def locked_unfold getDefaultAMIID_locked_miss Let_def)
qed

lemma amiFilters_ubuntu:
  "amiFilters OperatingSystemUbuntu =
     Some \<lparr>description = ''Canonical, Ubuntu, 18.04 LTS, amd64 bionic image build on ????-??-??'',
           owner = ''099720109477''\<rparr>"
  by (simp add: amiFilters_def OperatingSystemUbuntu_def OperatingSystemCoreos_def
        OperatingSystemCentOS_def)

lemma time_Parse_garbage: "time_Parse ''garbage'' = None"
  by code_simp

lemma time_Parse_yesterday: "time_Parse ''yesterday'' = None"
  by code_simp

theorem getDefaultAMIID_all_unparseable_witness:
  "\<not> cacheLock exampleState
   \<and> cache_Get (cache exampleState) (now exampleState)
        (amiCacheKey (Region (exampleClient (Inr []) (Inr garbageImages))) OperatingSystemUbuntu)
       = None
   \<and> time_Parse ''garbage'' = None \<and> time_Parse ''yesterday'' = None
   \<and> (\<exists>s'. getDefaultAMIID (exampleClient (Inr []) (Inr garbageImages)) OperatingSystemUbuntu
              exampleState = Some (Inr ''ami-first'', s'))"
proof -
  let ?c = "exampleClient (Inr []) (Inr garbageImages)"
  let ?first = "\<lparr>ImageId = ''ami-first'', CreationDate = ''garbage''\<rparr>"
  let ?second = "\<lparr>ImageId = ''ami-second'', CreationDate = ''yesterday''\<rparr>"
  have free: "\<not> cacheLock exampleState" by (simp add: exampleState_def)
  have miss: "cache_Get (cache exampleState) (now exampleState)
                (amiCacheKey (Region ?c) OperatingSystemUbuntu) = None" by simp
  have resp: "DescribeImages ?c (imagesInput f) = Inr (?first # [?second])" for f
    by (simp add: garbageImages_def)
  have bad: "\<forall>v \<in> set (?first # [?second]). time_Parse (CreationDate v) = None"
    by (simp add: time_Parse_garbage time_Parse_yesterday)
  from getDefaultAMIID_all_unparseable [OF free amiFilters_ubuntu miss resp bad]
  show ?thesis
    using free miss by (simp add: time_Parse_garbage time_Parse_yesterday)
qed

subsection \<open>What a miss writes\<close>

text \<open>
  Claim C10. On a miss that succeeds, the store afterwards differs from the store before
  only at the computed key, where it holds the value returned to the caller, and this
  value comes from the answer of EC2: \<open>getVpc\<close> returns one of the descriptors of the
  \<open>DescribeVpcs\<close> answer, \<open>getDefaultAMIID\<close> the image id of one of the candidates of
  the \<open>DescribeImages\<close> answer.
\<close>

theorem miss_caches_what_it_returns:
  "(cache_Get (cache s) (now s) (vpcCacheKey (Region client) id') = None
      \<and> getVpc client id' s = Some (Inr v, s') \<longrightarrow>
      cache s' = (cache s)(vpcCacheKey (Region client) id' \<mapsto>
                    \<lparr>Object = CVpc v,
                     Expiration = now s + RoundTrip client + defaultExpiration\<rparr>)
      \<and> (\<exists>Vpcs. DescribeVpcs client (vpcInput id') = Inr Vpcs \<and> v \<in> set Vpcs))
   \<and> (cache_Get (cache t) (now t) (amiCacheKey (Region client) os) = None
      \<and> getDefaultAMIID client os t = Some (Inr a, t') \<longrightarrow>
      cache t' = (cache t)(amiCacheKey (Region client) os \<mapsto>
                    \<lparr>Object = CString a,
                     Expiration = now t + RoundTrip client + defaultExpiration\<rparr>)
      \<and> (\<exists>filter' Images image'. amiFilters os = Some filter'
            \<and> DescribeImages client (imagesInput filter') = Inr Images
            \<and> image' \<in> set Images \<and> ImageId image' = a))"
proof (intro conjI impI)
  assume h: "cache_Get (cache s) (now s) (vpcCacheKey (Region client) id') = None
      \<and> getVpc client id' s = Some (Inr v, s')"
  then have "\<exists>Vpcs. DescribeVpcs client (vpcInput id') = Inr Vpcs \<and> length Vpcs = 1
      \<and> v = Vpcs ! 0
      \<and> cache s' = (cache s)(vpcCacheKey (Region client) id' \<mapsto>
                    \<lparr>Object = CVpc v,
                     Expiration = now s + RoundTrip client + defaultExpiration\<rparr>)"
    by (auto simp: getVpc_def locked_unfold getVpc_locked_miss Let_def cache_SetDefault_def
          split: sum.splits if_splits)
  then show "cache s' = (cache s)(vpcCacheKey (Region client) id' \<mapsto>
                    \<lparr>Object = CVpc v,
                     Expiration = now s + RoundTrip client + defaultExpiration\<rparr>)"
    and "\<exists>Vpcs. DescribeVpcs client (vpcInput id') = Inr Vpcs \<and> v \<in> set Vpcs"
    by (auto simp: length_Suc_conv)
next
  assume h: "cache_Get (cache t) (now t) (amiCacheKey (Region client) os) = None
      \<and> getDefaultAMIID client os t = Some (Inr a, t')"
  then obtain filter' where f: "amiFilters os = Some filter'"
    by (cases "amiFilters os")
       (auto simp: getDefaultAMIID_def locked_unfold getDefaultAMIID_locked_def split: if_splits)
  with h obtain first rest where
    resp: "DescribeImages client (imagesInput filter') = Inr (first # rest)"
    and a: "a = ImageId (newestImage first (first # rest))"
    and c: "cache t' = (cache t)(amiCacheKey (Region client) os \<mapsto>
                    \<lparr>Object = CString a,
                     Expiration = now t + RoundTrip client + defaultExpiration\<rparr>)"
    by (auto simp: getDefaultAMIID_def locked_unfold getDefaultAMIID_locked_miss Let_def
          cache_SetDefault_def split: sum.splits list.splits if_splits)
  from c show "cache t' = (cache t)(amiCacheKey (Region client) os \<mapsto>
                    \<lparr>Object = CString a,
                     Expiration = now t + RoundTrip client + defaultExpiration\<rparr>)" .
  have "newestImage first (first # rest) \<in> set (first # rest)"
    using newestImage_mem [of first "first # rest"] by auto
  with f resp a show "\<exists>filter' Images image'. amiFilters os = Some filter'
            \<and> DescribeImages client (imagesInput filter') = Inr Images
            \<and> image' \<in> set Images \<and> ImageId image' = a"
    by blast
qed


lemma time_Parse_2020: "time_Parse ''2020-01-01T00:00:00Z'' = Some 63713433600000000000"
  by code_simp

lemma time_Parse_2021: "time_Parse ''2021-06-15T00:00:00Z'' = Some 63759312000000000000"
  by code_simp

lemma newestImage_threeImages:
  "newestImage \<lparr>ImageId = ''ami-2020'', CreationDate = ''2020-01-01T00:00:00Z''\<rparr> threeImages
     = \<lparr>ImageId = ''ami-2021'', CreationDate = ''2021-06-15T00:00:00Z''\<rparr>"
  by (simp add: threeImages_def Let_def parsedTime_def After_def time_Parse_2020
        time_Parse_2021 time_Parse_garbage)

lemma exampleState_free [simp]: "\<not> cacheLock exampleState"
  by (simp add: exampleState_def)

lemma getVpc_example:
  "\<exists>s'. getVpc (exampleClient (Inr [vpcA]) images) ''vpc-a'' exampleState = Some (Inr vpcA, s')"
  by (simp add: getVpc_def locked_unfold getVpc_locked_miss)

lemma getDefaultAMIID_miss_success:
  assumes "\<not> cacheLock s"
    and "amiFilters os = Some filter'"
    and "cache_Get (cache s) (now s) (amiCacheKey (Region client) os) = None"
    and "DescribeImages client (imagesInput filter') = Inr (first # rest)"
  shows "\<exists>s'. getDefaultAMIID client os s
               = Some (Inr (ImageId (newestImage first (first # rest))), s')"
  using assms
  by (simp add: getDefaultAMIID_def locked_unfold getDefaultAMIID_locked_miss Let_def)

lemma getDefaultAMIID_example:
  "\<exists>t'. getDefaultAMIID (exampleClient vpcs (Inr threeImages)) OperatingSystemUbuntu exampleState
          = Some (Inr ''ami-2021'', t')"
proof -
  let ?first = "\<lparr>ImageId = ''ami-2020'', CreationDate = ''2020-01-01T00:00:00Z''\<rparr>"
  have cons: "threeImages = ?first # tl threeImages"
    by (simp add: threeImages_def)
  have resp: "DescribeImages (exampleClient vpcs (Inr threeImages)) (imagesInput f)
          = Inr (?first # tl threeImages)" for f
    using cons by simp
  have miss: "cache_Get (cache exampleState) (now exampleState)
       (amiCacheKey (Region (exampleClient vpcs (Inr threeImages))) OperatingSystemUbuntu) = None"
    by simp
  from getDefaultAMIID_miss_success [OF exampleState_free amiFilters_ubuntu miss resp]
  have "\<exists>t'. getDefaultAMIID (exampleClient vpcs (Inr threeImages)) OperatingSystemUbuntu
                exampleState
               = Some (Inr (ImageId (newestImage ?first (?first # tl threeImages))), t')" .
  moreover have "newestImage ?first (?first # tl threeImages)
                 = \<lparr>ImageId = ''ami-2021'', CreationDate = ''2021-06-15T00:00:00Z''\<rparr>"
    using newestImage_threeImages cons by simp
  ultimately show ?thesis by simp
qed

theorem miss_caches_what_it_returns_witness:
  "\<exists>s' t'.
     cache_Get (cache exampleState) (now exampleState)
       (vpcCacheKey (Region (exampleClient (Inr [vpcA]) (Inr threeImages))) ''vpc-a'') = None
   \<and> getVpc (exampleClient (Inr [vpcA]) (Inr threeImages)) ''vpc-a'' exampleState
       = Some (Inr vpcA, s')
   \<and> cache s' ''vpc-eu-west-1-vpc-a''
       = Some \<lparr>Object = CVpc vpcA, Expiration = 300000001250\<rparr>
   \<and> cache_Get (cache exampleState) (now exampleState)
       (amiCacheKey (Region (exampleClient (Inr [vpcA]) (Inr threeImages)))
          OperatingSystemUbuntu) = None
   \<and> getDefaultAMIID (exampleClient (Inr [vpcA]) (Inr threeImages)) OperatingSystemUbuntu
       exampleState = Some (Inr ''ami-2021'', t')
   \<and> cache t' ''ami-id-eu-west-1-ubuntu''
       = Some \<lparr>Object = CString ''ami-2021'', Expiration = 300000001250\<rparr>"
proof -
  let ?c = "exampleClient (Inr [vpcA]) (Inr threeImages)"
  obtain s' where s': "getVpc ?c ''vpc-a'' exampleState = Some (Inr vpcA, s')"
    using getVpc_example by blast
  obtain t' where t': "getDefaultAMIID ?c OperatingSystemUbuntu exampleState
                         = Some (Inr ''ami-2021'', t')"
    using getDefaultAMIID_example by blast
  have m1: "cache_Get (cache exampleState) (now exampleState)
              (vpcCacheKey (Region ?c) ''vpc-a'') = None" by simp
  have m2: "cache_Get (cache exampleState) (now exampleState)
              (amiCacheKey (Region ?c) OperatingSystemUbuntu) = None" by simp
  from miss_caches_what_it_returns
         [of exampleState ?c "''vpc-a''" vpcA s' exampleState OperatingSystemUbuntu
             "''ami-2021''" t']
       m1 m2 s' t'
  have "cache s' = (cache exampleState)(vpcCacheKey (Region ?c) ''vpc-a'' \<mapsto>
                    \<lparr>Object = CVpc vpcA,
                     Expiration = now exampleState + RoundTrip ?c + defaultExpiration\<rparr>)"
    and "cache t' = (cache exampleState)(amiCacheKey (Region ?c) OperatingSystemUbuntu \<mapsto>
                    \<lparr>Object = CString ''ami-2021'',
                     Expiration = now exampleState + RoundTrip ?c + defaultExpiration\<rparr>)"
    by blast+
  then have "cache s' ''vpc-eu-west-1-vpc-a''
               = Some \<lparr>Object = CVpc vpcA, Expiration = 300000001250\<rparr>"
    and "cache t' ''ami-id-eu-west-1-ubuntu''
               = Some \<lparr>Object = CString ''ami-2021'', Expiration = 300000001250\<rparr>"
    by (simp_all add: vpcCacheKey_def amiCacheKey_def OperatingSystemUbuntu_def
          exampleState_def defaultExpiration_def Minute_def)
  with m1 m2 s' t' show ?thesis by blast
qed

subsection \<open>Unsupported operating systems\<close>

lemma relock_state:
  "\<not> cacheLock s \<Longrightarrow>
   emit EvUnlock ((emit EvLock (s\<lparr>cacheLock := True\<rparr>))\<lparr>cacheLock := False\<rparr>)
     = s\<lparr>trace := trace s @ [EvLock, EvUnlock]\<rparr>"
  by (cases s) (simp add: emit_def)

lemma amiFilters_plan9: "amiFilters ''plan9'' = None"
  by (simp add: amiFilters_def OperatingSystemUbuntu_def OperatingSystemCoreos_def
        OperatingSystemCentOS_def)

text \<open>
  Claim C2, as stated, fails: the call for \<open>plan9\<close> locks and unlocks the mutex on its way
  to the error, and while another caller holds the mutex it does not return at all.
\<close>

theorem unsupported_os_touches_lock:
  "map_option (actions exampleState \<circ> snd)
     (getDefaultAMIID (exampleClient (Inr []) (Inr [])) ''plan9'' exampleState)
     = Some [EvLock, EvUnlock]
   \<and> getDefaultAMIID (exampleClient (Inr []) (Inr [])) ''plan9''
       (exampleState\<lparr>cacheLock := True\<rparr>) = None"
  by (simp add: getDefaultAMIID_def locked_unfold getDefaultAMIID_locked_def amiFilters_plan9)

text \<open>
  Claim C2, amended. For an operating system without an entry in \<open>amiFilters\<close>,
  \<open>getDefaultAMIID\<close> first takes the mutex (it waits as long as the mutex is held), then
  returns the error \<open>operating system not supported\<close> and releases the mutex: it neither
  reads nor writes the store and makes no request to EC2, for every region.
\<close>

theorem getDefaultAMIID_unsupported_os:
  assumes "amiFilters os = None"
  shows "getDefaultAMIID client os s =
           (if cacheLock s then None
            else Some (Inl (Errorf ''operating system %q not supported'' [os]),
                       s\<lparr>trace := trace s @ [EvLock, EvUnlock]\<rparr>))"
  using assms
  by (simp add: getDefaultAMIID_def locked_unfold getDefaultAMIID_locked_def relock_state)

theorem getDefaultAMIID_unsupported_os_witness:
  "amiFilters ''plan9'' = None
   \<and> getDefaultAMIID (exampleClient (Inr []) (Inr [])) ''plan9'' exampleState
       = Some (Inl (Errorf ''operating system %q not supported'' [''plan9'']),
               exampleState\<lparr>trace := [EvLock, EvUnlock]\<rparr>)"
  using getDefaultAMIID_unsupported_os [OF amiFilters_plan9, of "exampleClient (Inr []) (Inr [])"
          exampleState]
  by (simp add: amiFilters_plan9) (simp add: exampleState_def)

subsection \<open>Errors of the request itself\<close>

text \<open>
  Claim C6 at a failing request: \<open>getVpc\<close> passes the error of \<open>DescribeVpcs\<close> through
  \<open>awsErrorToTerminalError\<close> with the context \<open>failed to list vpc's\<close>, while
  \<open>getDefaultAMIID\<close> returns the error of \<open>DescribeImages\<close> as it is, without context.
\<close>

theorem getDefaultAMIID_returns_bare_error:
  "map_option fst
     (getVpc (exampleClient (Inl (AwsError ''RequestLimitExceeded''))
                (Inl (AwsError ''RequestLimitExceeded''))) ''vpc-a'' exampleState)
     = Some (Inl (AwsErrorToTerminalError (AwsError ''RequestLimitExceeded'')
                   ''failed to list vpc's''))
   \<and> map_option fst
     (getDefaultAMIID (exampleClient (Inl (AwsError ''RequestLimitExceeded''))
                (Inl (AwsError ''RequestLimitExceeded''))) OperatingSystemUbuntu exampleState)
     = Some (Inl (AwsError ''RequestLimitExceeded''))"
  by (simp add: getVpc_def getDefaultAMIID_def locked_unfold getVpc_locked_miss
        getDefaultAMIID_locked_miss [OF amiFilters_ubuntu])

subsection \<open>Expiration\<close>

lemma cache_Get_DeleteExpired:
  "t' \<le> t \<Longrightarrow> cache_Get (cache_DeleteExpired c t') t k = cache_Get c t k"
  by (auto simp: cache_Get_def cache_DeleteExpired_def split: option.splits)

text \<open>
  Claim C8. A value stored at time \<open>T\<close> under a key is found by a read of that key at every
  time before \<open>T\<close> plus the default expiration, which is five minutes, and by no read at
  that instant or later. A sweep of the expired entries at any time up to the read changes
  no read. A read leaves the store, the clock and the mutex as they are.
\<close>

theorem store_expiration:
  "cache_Get (cache_SetDefault c T k x) t k
     = (if t < T + defaultExpiration then Some x else None)
   \<and> defaultExpiration = 5 * 60 * 1000000000
   \<and> (t' \<le> t \<longrightarrow> cache_Get (cache_DeleteExpired c' t') t k' = cache_Get c' t k')
   \<and> cache (snd (Get k s)) = cache s
   \<and> now (snd (Get k s)) = now s
   \<and> cacheLock (snd (Get k s)) = cacheLock s"
  by (simp add: cache_Get_DeleteExpired)
     (simp add: cache_Get_def cache_SetDefault_def defaultExpiration_def Minute_def)

theorem store_expiration_witness:
  "cache_Get (cache_SetDefault Map.empty 1000 ''k'' (CString ''v'')) 300000000999 ''k''
     = Some (CString ''v'')
   \<and> cache_Get (cache_SetDefault Map.empty 1000 ''k'' (CString ''v'')) 300000001000 ''k''
     = None
   \<and> (2000::nat) \<le> 300000000999
   \<and> cache_Get (cache_DeleteExpired (cache_SetDefault Map.empty 1000 ''k'' (CString ''v'')) 2000)
        300000000999 ''k'' = Some (CString ''v'')"
proof -
  let ?c = "cache_SetDefault Map.empty 1000 ''k'' (CString ''v'')"
  note a = store_expiration [of Map.empty 1000 "''k''" "CString ''v''" 300000000999
             2000 ?c "''k''" exampleState]
  note b = store_expiration [of Map.empty 1000 "''k''" "CString ''v''" 300000001000
             2000 ?c "''k''" exampleState]
  have d: "defaultExpiration = 300000000000" using a by simp
  from a d have "cache_Get ?c 300000000999 ''k'' = Some (CString ''v'')" by simp
  moreover from b d have "cache_Get ?c 300000001000 ''k'' = None" by simp
  moreover from a have "cache_Get (cache_DeleteExpired ?c 2000) 300000000999 ''k''
                          = cache_Get ?c 300000000999 ''k''" by simp
  ultimately show ?thesis by simp
qed

subsection \<open>Cache keys\<close>

text \<open>Two strings joined by a separator: when the joins of two pairs coincide.\<close>

lemma join_eq_iff:
  "xs @ c # ys = xs' @ c # ys' \<longleftrightarrow>
     xs = xs' \<and> ys = ys'
     \<or> (\<exists>x. xs = xs' @ c # x \<and> ys' = x @ c # ys)
     \<or> (\<exists>x. xs' = xs @ c # x \<and> ys = x @ c # ys')"
proof
  assume "xs @ c # ys = xs' @ c # ys'"
  then obtain us where "xs = xs' @ us \<and> us @ c # ys = c # ys'
      \<or> xs @ us = xs' \<and> c # ys = us @ c # ys'"
    by (auto simp: append_eq_append_conv2)
  then show "xs = xs' \<and> ys = ys'
     \<or> (\<exists>x. xs = xs' @ c # x \<and> ys' = x @ c # ys)
     \<or> (\<exists>x. xs' = xs @ c # x \<and> ys = x @ c # ys')"
    by (cases us) auto
next
  assume "xs = xs' \<and> ys = ys'
     \<or> (\<exists>x. xs = xs' @ c # x \<and> ys' = x @ c # ys)
     \<or> (\<exists>x. xs' = xs @ c # x \<and> ys = x @ c # ys')"
  then show "xs @ c # ys = xs' @ c # ys'" by auto
qed

lemma join_distinct:
  assumes "xs @ c # ys = xs' @ c # ys'"
    and "count_list xs c = count_list xs' c \<or> count_list ys c = count_list ys' c"
  shows "xs = xs' \<and> ys = ys'"
proof -
  from assms(1) consider "xs = xs' \<and> ys = ys'"
    | x where "xs = xs' @ c # x" "ys' = x @ c # ys"
    | x where "xs' = xs @ c # x" "ys = x @ c # ys'"
    unfolding join_eq_iff by blast
  then show ?thesis
  proof cases
    case 1
    then show ?thesis .
  next
    case 2
    then have "count_list xs c > count_list xs' c" "count_list ys' c > count_list ys c"
      by simp_all
    with assms(2) show ?thesis by simp
  next
    case 3
    then have "count_list xs' c > count_list xs c" "count_list ys c > count_list ys' c"
      by simp_all
    with assms(2) show ?thesis by simp
  qed
qed

lemma vpcCacheKey_eq:
  "vpcCacheKey r i = vpcCacheKey r' i' \<longleftrightarrow> r @ CHR ''-'' # i = r' @ CHR ''-'' # i'"
  by (simp add: vpcCacheKey_def)

lemma amiCacheKey_eq:
  "amiCacheKey r os = amiCacheKey r' os' \<longleftrightarrow> r @ CHR ''-'' # os = r' @ CHR ''-'' # os'"
  by (simp add: amiCacheKey_def)

text \<open>
  Claim C7, as stated, fails: the region and the parameter are joined by a hyphen, which
  both may contain, so that two lookups of networks that differ in region and identifier
  can share a key.
\<close>

theorem vpcCacheKey_collision:
  "vpcCacheKey ''us-east'' ''1-vpc-1'' = vpcCacheKey ''us-east-1'' ''vpc-1''
   \<and> ''us-east'' \<noteq> ''us-east-1'' \<and> ''1-vpc-1'' \<noteq> ''vpc-1''"
  by (simp add: vpcCacheKey_def)

text \<open>
  Claim C7, amended. The key is a function of the operation, the region and the parameter,
  so equal lookups have equal keys. A network key is never an image key. Two lookups of
  the same operation have the same key exactly if they are equal, or the region of one is
  the region of the other followed by a hyphen and a string \<open>x\<close> while the parameter of
  the other is \<open>x\<close> followed by a hyphen and the parameter of the first. Hence two
  different lookups of the same operation have different keys whenever their regions
  contain the same number of hyphens, or their parameters do.
\<close>

theorem cache_keys_distinct:
  "vpcCacheKey r i \<noteq> amiCacheKey r' os'
   \<and> (vpcCacheKey r i = vpcCacheKey r' i' \<longleftrightarrow>
        r = r' \<and> i = i'
        \<or> (\<exists>x. r = r' @ ''-'' @ x \<and> i' = x @ ''-'' @ i)
        \<or> (\<exists>x. r' = r @ ''-'' @ x \<and> i = x @ ''-'' @ i'))
   \<and> (amiCacheKey r os = amiCacheKey r' os' \<longleftrightarrow>
        r = r' \<and> os = os'
        \<or> (\<exists>x. r = r' @ ''-'' @ x \<and> os' = x @ ''-'' @ os)
        \<or> (\<exists>x. r' = r @ ''-'' @ x \<and> os = x @ ''-'' @ os'))
   \<and> ((r \<noteq> r' \<or> i \<noteq> i')
        \<and> (count_list r CHR ''-'' = count_list r' CHR ''-''
            \<or> count_list i CHR ''-'' = count_list i' CHR ''-'')
      \<longrightarrow> vpcCacheKey r i \<noteq> vpcCacheKey r' i')
   \<and> ((r \<noteq> r' \<or> os \<noteq> os')
        \<and> (count_list r CHR ''-'' = count_list r' CHR ''-''
            \<or> count_list os CHR ''-'' = count_list os' CHR ''-'')
      \<longrightarrow> amiCacheKey r os \<noteq> amiCacheKey r' os')"
proof (intro conjI impI)
  show "vpcCacheKey r i \<noteq> amiCacheKey r' os'"
    by (simp add: vpcCacheKey_def amiCacheKey_def)
next
  show "vpcCacheKey r i = vpcCacheKey r' i' \<longleftrightarrow>
        r = r' \<and> i = i'
        \<or> (\<exists>x. r = r' @ ''-'' @ x \<and> i' = x @ ''-'' @ i)
        \<or> (\<exists>x. r' = r @ ''-'' @ x \<and> i = x @ ''-'' @ i')"
    unfolding vpcCacheKey_eq join_eq_iff by simp
next
  show "amiCacheKey r os = amiCacheKey r' os' \<longleftrightarrow>
        r = r' \<and> os = os'
        \<or> (\<exists>x. r = r' @ ''-'' @ x \<and> os' = x @ ''-'' @ os)
        \<or> (\<exists>x. r' = r @ ''-'' @ x \<and> os = x @ ''-'' @ os')"
    unfolding amiCacheKey_eq join_eq_iff by simp
next
  assume h: "(r \<noteq> r' \<or> i \<noteq> i')
        \<and> (count_list r CHR ''-'' = count_list r' CHR ''-''
            \<or> count_list i CHR ''-'' = count_list i' CHR ''-'')"
  show "vpcCacheKey r i \<noteq> vpcCacheKey r' i'"
  proof
    assume "vpcCacheKey r i = vpcCacheKey r' i'"
    then have "r @ CHR ''-'' # i = r' @ CHR ''-'' # i'" by (simp only: vpcCacheKey_eq)
    from join_distinct [OF this] h show False by blast
  qed
next
  assume h: "(r \<noteq> r' \<or> os \<noteq> os')
        \<and> (count_list r CHR ''-'' = count_list r' CHR ''-''
            \<or> count_list os CHR ''-'' = count_list os' CHR ''-'')"
  show "amiCacheKey r os \<noteq> amiCacheKey r' os'"
  proof
    assume "amiCacheKey r os = amiCacheKey r' os'"
    then have "r @ CHR ''-'' # os = r' @ CHR ''-'' # os'" by (simp only: amiCacheKey_eq)
    from join_distinct [OF this] h show False by blast
  qed
qed

theorem cache_keys_distinct_witness:
  "vpcCacheKey ''us-east-1'' ''vpc-0a1b'' \<noteq> amiCacheKey ''us-east-1'' ''ubuntu''
   \<and> ''us-east-1'' \<noteq> ''eu-west-1''
   \<and> count_list ''us-east-1'' CHR ''-'' = count_list ''eu-west-1'' CHR ''-''
   \<and> vpcCacheKey ''us-east-1'' ''vpc-0a1b'' \<noteq> vpcCacheKey ''eu-west-1'' ''vpc-9f8e''
   \<and> ''ubuntu'' \<noteq> ''centos''
   \<and> count_list ''ubuntu'' CHR ''-'' = count_list ''centos'' CHR ''-''
   \<and> amiCacheKey ''us-east-1'' ''ubuntu'' \<noteq> amiCacheKey ''eu-west-1'' ''centos''"
proof -
  have r: "''us-east-1'' \<noteq> ''eu-west-1''" by simp
  have cr: "count_list ''us-east-1'' CHR ''-'' = count_list ''eu-west-1'' CHR ''-''" by simp
  have o: "''ubuntu'' \<noteq> ''centos''" by simp
  have co: "count_list ''ubuntu'' CHR ''-'' = count_list ''centos'' CHR ''-''" by simp
  from cache_keys_distinct [where r = "''us-east-1''" and i = "''vpc-0a1b''"
         and r' = "''us-east-1''" and os' = "''ubuntu''"]
  have a: "vpcCacheKey ''us-east-1'' ''vpc-0a1b'' \<noteq> amiCacheKey ''us-east-1'' ''ubuntu''"
    by blast
  from cache_keys_distinct [where r = "''us-east-1''" and i = "''vpc-0a1b''"
         and r' = "''eu-west-1''" and i' = "''vpc-9f8e''"
         and os = "''ubuntu''" and os' = "''centos''"] r cr o co
  have "vpcCacheKey ''us-east-1'' ''vpc-0a1b'' \<noteq> vpcCacheKey ''eu-west-1'' ''vpc-9f8e''"
    and "amiCacheKey ''us-east-1'' ''ubuntu'' \<noteq> amiCacheKey ''eu-west-1'' ''centos''"
    by blast+
  with a r cr o co show ?thesis by blast
qed

subsection \<open>The newest candidate\<close>

lemma time_Parse_ancient: "time_Parse ''0001-01-01T00:00:00+01:00'' = Some (- 3600000000000)"
  by code_simp

lemma newestImage_skips_unparseable:
  "time_Parse (CreationDate v) = None \<Longrightarrow> 0 \<le> parsedTime (CreationDate i) \<Longrightarrow>
   newestImage i (v # vs) = newestImage i vs"
  by (simp add: Let_def parsedTime_def After_def)

text \<open>
  Claim C3, as stated, fails: a creation date that does not parse is compared as the zero
  time, January 1 of year 1 UTC, and so it is newer than a parseable creation date before
  that instant. The candidate with the unparseable date is returned.
\<close>

theorem unparseable_date_wins:
  "time_Parse ''0001-01-01T00:00:00+01:00'' = Some (- 3600000000000)
   \<and> time_Parse ''garbage'' = None
   \<and> map_option fst
        (getDefaultAMIID (exampleClient (Inr []) (Inr ancientImages)) OperatingSystemUbuntu
           exampleState)
      = Some (Inr ''ami-garbage'')"
proof -
  let ?first = "\<lparr>ImageId = ''ami-ancient'', CreationDate = ''0001-01-01T00:00:00+01:00''\<rparr>"
  let ?rest = "[\<lparr>ImageId = ''ami-garbage'', CreationDate = ''garbage''\<rparr>]"
  let ?c = "exampleClient (Inr []) (Inr ancientImages)"
  have resp: "DescribeImages ?c (imagesInput f) = Inr (?first # ?rest)" for f
    by (simp add: ancientImages_def)
  have miss: "cache_Get (cache exampleState) (now exampleState)
       (amiCacheKey (Region ?c) OperatingSystemUbuntu) = None"
    by simp
  from getDefaultAMIID_miss_success [OF exampleState_free amiFilters_ubuntu miss resp]
  have "\<exists>t'. getDefaultAMIID ?c OperatingSystemUbuntu exampleState
               = Some (Inr (ImageId (newestImage ?first (?first # ?rest))), t')" .
  moreover have "newestImage ?first (?first # ?rest)
                   = \<lparr>ImageId = ''ami-garbage'', CreationDate = ''garbage''\<rparr>"
    by (simp add: Let_def parsedTime_def After_def time_Parse_ancient time_Parse_garbage)
  ultimately show ?thesis
    by (auto simp: time_Parse_ancient time_Parse_garbage)
qed

text \<open>
  Claim C3, amended. For every non-empty list of candidates that \<open>DescribeImages\<close> returns
  on a miss, \<open>getDefaultAMIID\<close> succeeds and returns the image id of a candidate of the
  list whose creation time is the latest, a creation date that does not parse counting as
  the zero time (January 1 of year 1, 00:00:00 UTC). So if the creation date of some
  candidate parses to an instant after the zero time, the returned candidate has the
  latest parseable creation date. A candidate whose date does not parse never makes the
  call fail, and it does not replace a best candidate whose time is the zero time or
  later. For the dates 2020-01-01T00:00:00Z, 2021-06-15T00:00:00Z and \<open>garbage\<close> the
  candidate of 2021-06-15 is returned.
\<close>

theorem getDefaultAMIID_newest:
  assumes "\<not> cacheLock s"
    and "amiFilters os = Some filter'"
    and "cache_Get (cache s) (now s) (amiCacheKey (Region client) os) = None"
    and "DescribeImages client (imagesInput filter') = Inr Images"
    and "Images \<noteq> []"
  shows "\<exists>w s'. getDefaultAMIID client os s = Some (Inr (ImageId w), s')
           \<and> w \<in> set Images
           \<and> (\<forall>v \<in> set Images. parsedTime (CreationDate v) \<le> parsedTime (CreationDate w))
           \<and> ((\<exists>v \<in> set Images. \<exists>t. time_Parse (CreationDate v) = Some t \<and> 0 < t) \<longrightarrow>
                (\<exists>tw. time_Parse (CreationDate w) = Some tw
                    \<and> (\<forall>v \<in> set Images. \<forall>t. time_Parse (CreationDate v) = Some t \<longrightarrow> t \<le> tw)))
           \<and> (\<forall>i v vs. time_Parse (CreationDate v) = None \<and> 0 \<le> parsedTime (CreationDate i)
                 \<longrightarrow> newestImage i (v # vs) = newestImage i vs)"
proof -
  from assms(5) obtain first rest where Images: "Images = first # rest"
    by (cases Images) auto
  define w where "w = newestImage first (first # rest)"
  from getDefaultAMIID_miss_success [OF assms(1-3) assms(4) [unfolded Images]]
  obtain s' where call: "getDefaultAMIID client os s = Some (Inr (ImageId w), s')"
    unfolding w_def by blast
  have mem: "w \<in> set Images"
    using newestImage_mem [of first "first # rest"] by (auto simp: w_def Images)
  have max: "parsedTime (CreationDate v) \<le> parsedTime (CreationDate w)" if "v \<in> set Images" for v
    using newestImage_max [of v first "first # rest"] that by (auto simp: w_def Images)
  have latest: "\<exists>tw. time_Parse (CreationDate w) = Some tw
                  \<and> (\<forall>v \<in> set Images. \<forall>t. time_Parse (CreationDate v) = Some t \<longrightarrow> t \<le> tw)"
    if "\<exists>v \<in> set Images. \<exists>t. time_Parse (CreationDate v) = Some t \<and> 0 < t"
  proof -
    from that obtain v t where v: "v \<in> set Images" "time_Parse (CreationDate v) = Some t" "0 < t"
      by blast
    from max [OF v(1)] v(2,3) have pos: "0 < parsedTime (CreationDate w)"
      by (simp add: parsedTime_def)
    then obtain tw where tw: "time_Parse (CreationDate w) = Some tw"
      by (cases "time_Parse (CreationDate w)") (auto simp: parsedTime_def)
    have "t' \<le> tw" if "v' \<in> set Images" "time_Parse (CreationDate v') = Some t'" for v' t'
      using max [OF that(1)] that(2) tw by (simp add: parsedTime_def)
    with tw show ?thesis by blast
  qed
  from call mem max latest newestImage_skips_unparseable show ?thesis
    by blast
qed

theorem getDefaultAMIID_newest_witness:
  "\<not> cacheLock exampleState
   \<and> cache_Get (cache exampleState) (now exampleState)
        (amiCacheKey (Region (exampleClient (Inr []) (Inr threeImages))) OperatingSystemUbuntu)
       = None
   \<and> threeImages \<noteq> []
   \<and> time_Parse ''2021-06-15T00:00:00Z'' = Some 63759312000000000000
   \<and> (\<exists>s'. getDefaultAMIID (exampleClient (Inr []) (Inr threeImages)) OperatingSystemUbuntu
              exampleState = Some (Inr ''ami-2021'', s'))"
proof -
  let ?c = "exampleClient (Inr []) (Inr threeImages)"
  let ?i21 = "\<lparr>ImageId = ''ami-2021'', CreationDate = ''2021-06-15T00:00:00Z''\<rparr>"
  have miss: "cache_Get (cache exampleState) (now exampleState)
                (amiCacheKey (Region ?c) OperatingSystemUbuntu) = None" by simp
  have resp: "DescribeImages ?c (imagesInput f) = Inr threeImages" for f by simp
  have ne: "threeImages \<noteq> []" by (simp add: threeImages_def)
  have in21: "?i21 \<in> set threeImages" by (simp add: threeImages_def)
  from getDefaultAMIID_newest [OF exampleState_free amiFilters_ubuntu miss resp ne]
  obtain w s' where call: "getDefaultAMIID ?c OperatingSystemUbuntu exampleState
                             = Some (Inr (ImageId w), s')"
    and w: "w \<in> set threeImages"
    and latest: "(\<exists>v \<in> set threeImages. \<exists>t. time_Parse (CreationDate v) = Some t \<and> 0 < t) \<longrightarrow>
                (\<exists>tw. time_Parse (CreationDate w) = Some tw
                    \<and> (\<forall>v \<in> set threeImages. \<forall>t. time_Parse (CreationDate v) = Some t \<longrightarrow> t \<le> tw))"
    by blast
  have "\<exists>v \<in> set threeImages. \<exists>t. time_Parse (CreationDate v) = Some t \<and> 0 < t"
    using in21 by (intro bexI [of _ ?i21] exI [of _ 63759312000000000000])
                  (simp_all add: time_Parse_2021)
  with latest obtain tw where tw: "time_Parse (CreationDate w) = Some tw"
    and le: "\<forall>v \<in> set threeImages. \<forall>t. time_Parse (CreationDate v) = Some t \<longrightarrow> t \<le> tw"
    by blast
  from le in21 have "63759312000000000000 \<le> tw" by (auto simp: time_Parse_2021)
  with w tw have "w = ?i21"
    by (auto simp: threeImages_def time_Parse_2020 time_Parse_garbage)
  with call have "getDefaultAMIID ?c OperatingSystemUbuntu exampleState
                    = Some (Inr ''ami-2021'', s')" by simp
  with miss ne show ?thesis by (auto simp: time_Parse_2021)
qed

subsection \<open>Failed calls\<close>

lemma getVpc_failed:
  assumes "getVpc client id' s = Some (Inl e, s')"
  shows "\<not> cacheLock s'" and "cache s' = cache s" and "now s \<le> now s'"
  using assms
  by (auto simp: getVpc_def locked_unfold getVpc_locked_def Get_def Let_def
        split: option.splits cached.splits sum.splits if_splits)

lemma getDefaultAMIID_failed:
  assumes "getDefaultAMIID client os s = Some (Inl e, s')"
  shows "\<not> cacheLock s'" and "cache s' = cache s" and "now s \<le> now s'"
  using assms
  by (auto simp: getDefaultAMIID_def locked_unfold getDefaultAMIID_locked_def Get_def Let_def
        split: option.splits cached.splits sum.splits list.splits if_splits)

lemma getVpc_miss_requests:
  assumes "\<not> cacheLock s"
    and "cache_Get (cache s) (now s) (vpcCacheKey (Region client) id') = None"
  shows "\<exists>r u. getVpc client id' s = Some (r, u)
           \<and> EvDescribeVpcs (Region client) (vpcInput id') \<in> set (actions s u)"
  using assms
  by (auto simp: getVpc_def locked_unfold getVpc_locked_miss Let_def actions_def
        split: sum.splits)

lemma getDefaultAMIID_miss_requests:
  assumes "\<not> cacheLock s"
    and "amiFilters os = Some filter'"
    and "cache_Get (cache s) (now s) (amiCacheKey (Region client) os) = None"
  shows "\<exists>r u. getDefaultAMIID client os s = Some (r, u)
           \<and> EvDescribeImages (Region client) (imagesInput filter') \<in> set (actions s u)"
  using assms
  by (auto simp: getDefaultAMIID_def locked_unfold getDefaultAMIID_locked_miss Let_def
        actions_def split: sum.splits list.splits)


text \<open>
  Claim C4, as stated, fails for the unsupported operating system, which it counts among
  the failing misses: the call after a call that failed for \<open>plan9\<close> fails in the same
  way and makes no request to EC2, although the client would answer with candidates.
\<close>

theorem unsupported_os_never_requests:
  "getDefaultAMIID (exampleClient (Inr []) (Inr threeImages)) ''plan9'' exampleState
     = Some (Inl (Errorf ''operating system %q not supported'' [''plan9'']),
             exampleState\<lparr>trace := [EvLock, EvUnlock]\<rparr>)
   \<and> map_option (actions (exampleState\<lparr>trace := [EvLock, EvUnlock]\<rparr>) \<circ> snd)
        (getDefaultAMIID (exampleClient (Inr []) (Inr threeImages)) ''plan9''
           (exampleState\<lparr>trace := [EvLock, EvUnlock]\<rparr>))
      = Some [EvLock, EvUnlock]"
  by (simp add: getDefaultAMIID_def locked_unfold getDefaultAMIID_locked_def amiFilters_plan9
        relock_state)
     (simp add: exampleState_def)

text \<open>
  Claim C4, amended. A call of \<open>getVpc\<close> or \<open>getDefaultAMIID\<close> that fails, for whichever
  reason, leaves the store as it was. After a failing miss of \<open>getVpc\<close>, or of
  \<open>getDefaultAMIID\<close> for an operating system of the filter table, the next call for the
  same key, at once or any time later and through any client of the same region, makes
  the request to EC2 again. For an operating system that is not in the filter table the
  store is unchanged as well, but no call ever makes a request.
\<close>

theorem no_negative_caching:
  "(getVpc client id' s = Some (Inl e, s') \<longrightarrow> cache s' = cache s)
   \<and> (getDefaultAMIID client os t = Some (Inl e', t') \<longrightarrow> cache t' = cache t)
   \<and> (getVpc client id' s = Some (Inl e, s')
        \<and> cache_Get (cache s) (now s) (vpcCacheKey (Region client) id') = None
        \<and> Region client2 = Region client \<longrightarrow>
        (\<exists>r u. getVpc client2 id' (s'\<lparr>now := now s' + d\<rparr>) = Some (r, u)
           \<and> EvDescribeVpcs (Region client) (vpcInput id')
               \<in> set (actions (s'\<lparr>now := now s' + d\<rparr>) u)))
   \<and> (getDefaultAMIID client os t = Some (Inl e', t')
        \<and> amiFilters os = Some filter'
        \<and> cache_Get (cache t) (now t) (amiCacheKey (Region client) os) = None
        \<and> Region client2 = Region client \<longrightarrow>
        (\<exists>r u. getDefaultAMIID client2 os (t'\<lparr>now := now t' + d\<rparr>) = Some (r, u)
           \<and> EvDescribeImages (Region client) (imagesInput filter')
               \<in> set (actions (t'\<lparr>now := now t' + d\<rparr>) u)))
   \<and> (amiFilters os = None \<and> getDefaultAMIID client os t = Some (r', t') \<longrightarrow>
        cache t' = cache t \<and> actions t t' = [EvLock, EvUnlock])"
proof (intro conjI impI)
  assume "getVpc client id' s = Some (Inl e, s')"
  then show "cache s' = cache s" by (rule getVpc_failed)
next
  assume "getDefaultAMIID client os t = Some (Inl e', t')"
  then show "cache t' = cache t" by (rule getDefaultAMIID_failed)
next
  assume h: "getVpc client id' s = Some (Inl e, s')
        \<and> cache_Get (cache s) (now s) (vpcCacheKey (Region client) id') = None
        \<and> Region client2 = Region client"
  let ?s = "s'\<lparr>now := now s' + d\<rparr>"
  from h have f: "\<not> cacheLock s'" "cache s' = cache s" "now s \<le> now s'"
    by (auto dest: getVpc_failed)
  from h f have "cache_Get (cache ?s) (now ?s) (vpcCacheKey (Region client2) id') = None"
    by (auto intro: cache_Get_later [of _ "now s"])
  moreover have "\<not> cacheLock ?s" using f by simp
  ultimately have "\<exists>r u. getVpc client2 id' ?s = Some (r, u)
           \<and> EvDescribeVpcs (Region client2) (vpcInput id') \<in> set (actions ?s u)"
    by (intro getVpc_miss_requests)
  with h show "\<exists>r u. getVpc client2 id' ?s = Some (r, u)
           \<and> EvDescribeVpcs (Region client) (vpcInput id') \<in> set (actions ?s u)"
    by simp
next
  assume h: "getDefaultAMIID client os t = Some (Inl e', t')
        \<and> amiFilters os = Some filter'
        \<and> cache_Get (cache t) (now t) (amiCacheKey (Region client) os) = None
        \<and> Region client2 = Region client"
  let ?t = "t'\<lparr>now := now t' + d\<rparr>"
  from h have f: "\<not> cacheLock t'" "cache t' = cache t" "now t \<le> now t'"
    by (auto dest: getDefaultAMIID_failed)
  from h f have "cache_Get (cache ?t) (now ?t) (amiCacheKey (Region client2) os) = None"
    by (auto intro: cache_Get_later [of _ "now t"])
  moreover have "\<not> cacheLock ?t" using f by simp
  moreover from h have "amiFilters os = Some filter'" by simp
  ultimately have "\<exists>r u. getDefaultAMIID client2 os ?t = Some (r, u)
           \<and> EvDescribeImages (Region client2) (imagesInput filter') \<in> set (actions ?t u)"
    by (intro getDefaultAMIID_miss_requests)
  with h show "\<exists>r u. getDefaultAMIID client2 os ?t = Some (r, u)
           \<and> EvDescribeImages (Region client) (imagesInput filter') \<in> set (actions ?t u)"
    by simp
next
  assume h: "amiFilters os = None \<and> getDefaultAMIID client os t = Some (r', t')"
  then show "cache t' = cache t" and "actions t t' = [EvLock, EvUnlock]"
    by (auto simp: getDefaultAMIID_def locked_unfold getDefaultAMIID_locked_def
          split: if_splits)
qed


theorem no_negative_caching_witness:
  "\<exists>s' t'.
     getVpc (exampleClient (Inr []) (Inr [])) ''vpc-a'' exampleState
       = Some (Inl (Errorf ''unable to find specified vpc with id %q'' [''vpc-a'']), s')
   \<and> cache s' = cache exampleState
   \<and> (\<exists>r u. getVpc (exampleClient (Inr [vpcA]) (Inr threeImages)) ''vpc-a''
                (s'\<lparr>now := now s' + 7\<rparr>) = Some (r, u)
          \<and> EvDescribeVpcs ''eu-west-1'' (vpcInput ''vpc-a'')
               \<in> set (actions (s'\<lparr>now := now s' + 7\<rparr>) u))
   \<and> getDefaultAMIID (exampleClient (Inr []) (Inr [])) OperatingSystemUbuntu exampleState
       = Some (Inl (Errorf (''could not find Image for '%s'' @ [CHR 0x27])
                     [OperatingSystemUbuntu]), t')
   \<and> cache t' = cache exampleState
   \<and> (\<exists>r u. getDefaultAMIID (exampleClient (Inr [vpcA]) (Inr threeImages))
                OperatingSystemUbuntu (t'\<lparr>now := now t' + 7\<rparr>) = Some (r, u)
          \<and> (\<exists>filter'. EvDescribeImages ''eu-west-1'' (imagesInput filter')
               \<in> set (actions (t'\<lparr>now := now t' + 7\<rparr>) u)))"
proof -
  let ?bad = "exampleClient (Inr []) (Inr [])"
  let ?good = "exampleClient (Inr [vpcA]) (Inr threeImages)"
  let ?e = "Errorf ''unable to find specified vpc with id %q'' [''vpc-a'']"
  let ?e' = "Errorf (''could not find Image for '%s'' @ [CHR 0x27]) [OperatingSystemUbuntu]"
  obtain s' where s': "getVpc ?bad ''vpc-a'' exampleState = Some (Inl ?e, s')"
    by (simp add: getVpc_def locked_unfold getVpc_locked_miss)
  obtain t' where t': "getDefaultAMIID ?bad OperatingSystemUbuntu exampleState
                         = Some (Inl ?e', t')"
    by (simp add: getDefaultAMIID_def locked_unfold
          getDefaultAMIID_locked_miss [OF amiFilters_ubuntu])
  have m1: "cache_Get (cache exampleState) (now exampleState)
              (vpcCacheKey (Region ?bad) ''vpc-a'') = None" by simp
  have m2: "cache_Get (cache exampleState) (now exampleState)
              (amiCacheKey (Region ?bad) OperatingSystemUbuntu) = None" by simp
  have reg: "Region ?good = Region ?bad" by simp
  note inst = no_negative_caching [of "?bad" "''vpc-a''" exampleState "?e" s' OperatingSystemUbuntu
      exampleState "?e'" t' "?good" 7 _ "Inl ?e'"]
  from inst s' have c1: "cache s' = cache exampleState" by blast
  from inst t' have c2: "cache t' = cache exampleState" by blast
  from inst s' m1 reg
  have q1: "\<exists>r u. getVpc ?good ''vpc-a'' (s'\<lparr>now := now s' + 7\<rparr>) = Some (r, u)
          \<and> EvDescribeVpcs (Region ?bad) (vpcInput ''vpc-a'')
               \<in> set (actions (s'\<lparr>now := now s' + 7\<rparr>) u)"
    by blast
  from no_negative_caching [of "?bad" "''vpc-a''" exampleState "?e" s' OperatingSystemUbuntu
      exampleState "?e'" t' "?good" 7
      "\<lparr>description =
          ''Canonical, Ubuntu, 18.04 LTS, amd64 bionic image build on ????-??-??'',
        owner = ''099720109477''\<rparr>" "Inl ?e'"] t' m2 reg amiFilters_ubuntu
  have q2: "\<exists>r u. getDefaultAMIID ?good OperatingSystemUbuntu (t'\<lparr>now := now t' + 7\<rparr>)
                   = Some (r, u)
          \<and> (\<exists>filter'. EvDescribeImages (Region ?bad) (imagesInput filter')
               \<in> set (actions (t'\<lparr>now := now t' + 7\<rparr>) u))"
    by blast
  from s' t' c1 c2 q1 q2 show ?thesis
    by (intro exI [of _ s'] exI [of _ t']) simp
qed

subsection \<open>The two readings of the bodies agree\<close>

lemma exec_getVpc_prog: "exec (getVpc_prog client id') s = getVpc_locked client id' s"
  by (simp add: getVpc_prog_def getVpc_locked_def Get_def Let_def
        split: option.split cached.split sum.split)

lemma exec_getDefaultAMIID_prog:
  "exec (getDefaultAMIID_prog client os) s = getDefaultAMIID_locked client os s"
  by (simp add: getDefaultAMIID_prog_def getDefaultAMIID_locked_def Get_def Let_def
        split: option.split cached.split sum.split list.split)

text \<open>A caller that is alone takes the steps of \<open>locked (exec P)\<close>.\<close>

lemma run_alone_running:
  "\<exists>n. run P (replicate n (Step 0)) ([Running p], s)
         = Some ([Returned (fst (exec p s))],
                 emit EvUnlock ((snd (exec p s))\<lparr>cacheLock := False\<rparr>))"
proof (induction p arbitrary: s)
  case (Ret r)
  have "run P (replicate 1 (Step 0)) ([Running (Ret r)], s)
          = Some ([Returned (fst (exec (Ret r) s))],
                  emit EvUnlock ((snd (exec (Ret r) s))\<lparr>cacheLock := False\<rparr>))"
    by simp
  then show ?case by blast
next
  case (DoGet k f)
  from DoGet [of "f (fst (Get k s))" "snd (Get k s)"]
  obtain n where "run P (replicate n (Step 0)) ([Running (f (fst (Get k s)))], snd (Get k s))
         = Some ([Returned (fst (exec (f (fst (Get k s))) (snd (Get k s))))],
                 emit EvUnlock ((snd (exec (f (fst (Get k s))) (snd (Get k s))))
                   \<lparr>cacheLock := False\<rparr>))"
    by (auto simp: image_iff)
  then have "run P (replicate (Suc n) (Step 0)) ([Running (DoGet k f)], s)
         = Some ([Returned (fst (exec (DoGet k f) s))],
                 emit EvUnlock ((snd (exec (DoGet k f) s))\<lparr>cacheLock := False\<rparr>))"
    by simp
  then show ?case by blast
next
  case (DoRequest c rq p)
  from DoRequest [of "request c (call_event c rq) s"]
  obtain n where "run P (replicate n (Step 0)) ([Running p], request c (call_event c rq) s)
         = Some ([Returned (fst (exec p (request c (call_event c rq) s)))],
                 emit EvUnlock ((snd (exec p (request c (call_event c rq) s)))
                   \<lparr>cacheLock := False\<rparr>))"
    by blast
  then have "run P (replicate (Suc n) (Step 0)) ([Running (DoRequest c rq p)], s)
         = Some ([Returned (fst (exec (DoRequest c rq p) s))],
                 emit EvUnlock ((snd (exec (DoRequest c rq p) s))\<lparr>cacheLock := False\<rparr>))"
    by simp
  then show ?case by blast
next
  case (DoSetDefault k x p)
  from DoSetDefault [of "SetDefault k x s"]
  obtain n where "run P (replicate n (Step 0)) ([Running p], SetDefault k x s)
         = Some ([Returned (fst (exec p (SetDefault k x s)))],
                 emit EvUnlock ((snd (exec p (SetDefault k x s)))\<lparr>cacheLock := False\<rparr>))"
    by blast
  then have "run P (replicate (Suc n) (Step 0)) ([Running (DoSetDefault k x p)], s)
         = Some ([Returned (fst (exec (DoSetDefault k x p) s))],
                 emit EvUnlock ((snd (exec (DoSetDefault k x p) s))\<lparr>cacheLock := False\<rparr>))"
    by simp
  then show ?case by blast
qed

lemma run_alone:
  assumes "locked (exec P) s = Some (r, s')"
  shows "\<exists>n. run P (replicate n (Step 0)) ([Waiting], s) = Some ([Returned r], s')"
proof -
  let ?s1 = "emit EvLock (s\<lparr>cacheLock := True\<rparr>)"
  from assms have free: "\<not> cacheLock s" and r: "r = fst (exec P ?s1)"
    and s': "s' = emit EvUnlock ((snd (exec P ?s1))\<lparr>cacheLock := False\<rparr>)"
    by (auto simp: locked_unfold split: if_splits)
  from run_alone_running [of P P ?s1] obtain n where
    "run P (replicate n (Step 0)) ([Running P], ?s1) = Some ([Returned r], s')"
    unfolding r s' by blast
  with free have "run P (replicate (Suc n) (Step 0)) ([Waiting], s) = Some ([Returned r], s')"
    by simp
  then show ?thesis by blast
qed

subsection \<open>Mutual exclusion\<close>

lemma held_after_snoc:
  "held_after h (tr @ [e]) = (case held_after h tr of None \<Rightarrow> None | Some h' \<Rightarrow> held_after h' [e])"
proof (induction tr arbitrary: h)
  case Nil
  show ?case by simp
next
  case (Cons a tr)
  show ?case by (cases a) (simp_all add: Cons)
qed

lemma requests_snoc [simp]: "requests (tr @ [e]) = requests tr + (if isRequest e then 1 else 0)"
  by (simp add: requests_def)

lemma isRequest_call_event [simp]: "isRequest (call_event client rq)"
  by (cases rq) simp_all

lemma held_after_call_event [simp]:
  "held_after h [call_event client rq] = (if h then Some h else None)"
  by (cases rq) simp_all

lemma thread_step_now: "thread_step P t s = Some (t', s') \<Longrightarrow> now s \<le> now s'"
proof (cases t)
  case Waiting
  then show "thread_step P t s = Some (t', s') \<Longrightarrow> now s \<le> now s'"
    by (auto split: if_splits)
next
  case (Running p)
  then show "thread_step P t s = Some (t', s') \<Longrightarrow> now s \<le> now s'"
    by (cases p) auto
next
  case (Returned r)
  then show "thread_step P t s = Some (t', s') \<Longrightarrow> now s \<le> now s'"
    by simp
qed

lemma exclusive_update:
  assumes "i < length ts" and "\<forall>j<length ts. j \<noteq> i \<longrightarrow> \<not> isRunning (ts ! j)"
  shows "exclusive (ts[i := t'], s') \<longleftrightarrow> (cacheLock s' \<longleftrightarrow> isRunning t')"
proof -
  have nth: "isRunning (ts[i := t'] ! j) \<longleftrightarrow> j = i \<and> isRunning t'" if "j < length ts" for j
    using assms that by (cases "j = i") simp_all
  have "(\<exists>j<length ts. isRunning (ts[i := t'] ! j)) \<longleftrightarrow> isRunning t'"
    using nth assms(1) by blast
  moreover have "\<forall>a<length ts. \<forall>b<length ts.
      isRunning (ts[i := t'] ! a) \<and> isRunning (ts[i := t'] ! b) \<longrightarrow> a = b"
    using nth by blast
  ultimately show ?thesis
    by (simp add: exclusive_def)
qed

lemma exclusive_free:
  "exclusive (ts, s) \<Longrightarrow> \<not> cacheLock s \<Longrightarrow> j < length ts \<Longrightarrow> \<not> isRunning (ts ! j)"
  by (simp add: exclusive_def)

lemma exclusive_others:
  "exclusive (ts, s) \<Longrightarrow> i < length ts \<Longrightarrow> isRunning (ts ! i) \<Longrightarrow>
   j < length ts \<Longrightarrow> j \<noteq> i \<Longrightarrow> \<not> isRunning (ts ! j)"
  unfolding exclusive_def by blast

lemma exclusive_held:
  "exclusive (ts, s) \<Longrightarrow> i < length ts \<Longrightarrow> isRunning (ts ! i) \<Longrightarrow> cacheLock s"
  unfolding exclusive_def by blast

lemma exclusive_step:
  assumes "exclusive (ts, s)" and "i < length ts"
    and "thread_step P (ts ! i) s = Some (t', s')"
  shows "exclusive (ts[i := t'], s')"
proof (cases "ts ! i")
  case Waiting
  with assms(3) have free: "\<not> cacheLock s" and t': "t' = Running P" and s': "cacheLock s'"
    by (auto split: if_splits)
  from exclusive_free [OF assms(1) free]
  have "\<forall>j<length ts. j \<noteq> i \<longrightarrow> \<not> isRunning (ts ! j)" by blast
  from exclusive_update [OF assms(2) this] t' s' show ?thesis by simp
next
  case (Running p)
  then have run: "isRunning (ts ! i)" by simp
  from exclusive_others [OF assms(1,2) run]
  have others: "\<forall>j<length ts. j \<noteq> i \<longrightarrow> \<not> isRunning (ts ! j)" by blast
  have held: "cacheLock s" by (rule exclusive_held [OF assms(1,2) run])
  have "cacheLock s' \<longleftrightarrow> isRunning t'"
    using assms(3) Running held by (cases p) auto
  with exclusive_update [OF assms(2) others] show ?thesis by simp
next
  case (Returned r)
  with assms show ?thesis by simp
qed

lemma held_after_step:
  assumes "exclusive (ts, s)" and "i < length ts"
    and "thread_step P (ts ! i) s = Some (t', s')"
    and "trace s = tr0 @ es" and "held_after h0 es = Some (cacheLock s)"
  shows "\<exists>es'. trace s' = tr0 @ es' \<and> held_after h0 es' = Some (cacheLock s')"
proof (cases "ts ! i")
  case Waiting
  with assms(3-5) show ?thesis
    by (auto simp: held_after_snoc split: if_splits)
next
  case (Running p)
  then have "isRunning (ts ! i)" by simp
  then have held: "cacheLock s" by (rule exclusive_held [OF assms(1,2)])
  from assms(3-5) Running held show ?thesis
    by (cases p) (auto simp: held_after_snoc)
next
  case (Returned r)
  with assms show ?thesis by simp
qed


subsection \<open>The invariant of a race\<close>

lemma populated_hit:
  "populated k obj t0 s \<Longrightarrow> now s < t0 + defaultExpiration \<Longrightarrow>
   cache_Get (cache s) (now s) k = Some obj"
  by (auto simp: populated_def cache_Get_def)

lemma unpopulated_miss:
  "unpopulated k t0 s \<Longrightarrow> t0 \<le> now s \<Longrightarrow> cache_Get (cache s) (now s) k = None"
  unfolding unpopulated_def by (rule cache_Get_later)

lemma thread_ok_idle:
  assumes "\<not> isRunning t" and "thread_ok k obj v client rq t0 q0 P s t"
    and "populated k obj t0 s \<Longrightarrow> populated k obj t0 s'"
  shows "thread_ok k obj v client rq t0 q0 P s' t"
  using assms by (cases t) (auto simp: thread_ok_def)

lemma coalesced_update:
  assumes "i < length ts"
    and "\<forall>j<length ts. j \<noteq> i \<longrightarrow> \<not> isRunning (ts ! j)"
    and "\<forall>j<length ts. thread_ok k obj v client rq t0 q0 P s (ts ! j)"
    and "populated k obj t0 s \<Longrightarrow> populated k obj t0 s'"
    and "thread_ok k obj v client rq t0 q0 P s' t'"
    and "t0 \<le> now s'"
    and "\<not> cacheLock s' \<Longrightarrow> idle_ok k obj t0 q0 s'"
  shows "coalesced k obj v client rq t0 q0 P (ts[i := t'], s')"
proof -
  have "thread_ok k obj v client rq t0 q0 P s' (ts[i := t'] ! j)" if "j < length ts" for j
  proof (cases "j = i")
    case True
    with assms(1,5) show ?thesis by simp
  next
    case False
    with assms(2,3) that have "\<not> isRunning (ts ! j)"
      and "thread_ok k obj v client rq t0 q0 P s (ts ! j)" by simp_all
    from thread_ok_idle [OF this assms(4)] False show ?thesis by simp
  qed
  with assms(6,7) show ?thesis by (simp add: coalesced_def)
qed

lemma coalesced_step:
  assumes P: "P = DoGet k F"
    and miss: "F None = DoRequest client rq (DoSetDefault k obj (Ret (Inr v)))"
    and hit: "F (Some obj) = Ret (Inr v)"
    and inv: "coalesced k obj v client rq t0 q0 P (ts, s)"
    and ex: "exclusive (ts, s)"
    and i: "i < length ts"
    and step: "thread_step P (ts ! i) s = Some (t', s')"
    and bound: "now s' < t0 + defaultExpiration"
  shows "coalesced k obj v client rq t0 q0 P (ts[i := t'], s')"
proof -
  from inv have t0: "t0 \<le> now s"
    and ok: "\<forall>j<length ts. thread_ok k obj v client rq t0 q0 P s (ts ! j)"
    and idle: "\<not> cacheLock s \<Longrightarrow> idle_ok k obj t0 q0 s"
    by (simp_all add: coalesced_def)
  from thread_step_now [OF step] t0 bound have t0': "t0 \<le> now s'"
    and now: "now s < t0 + defaultExpiration" by simp_all
  from ok i have oki: "thread_ok k obj v client rq t0 q0 P s (ts ! i)" by simp
  show ?thesis
  proof (cases "ts ! i")
    case Waiting
    with step have free: "\<not> cacheLock s" and t': "t' = Running P"
      and s': "s' = emit EvLock (s\<lparr>cacheLock := True\<rparr>)"
      by (auto split: if_splits)
    from exclusive_free [OF ex free]
    have others: "\<forall>j<length ts. j \<noteq> i \<longrightarrow> \<not> isRunning (ts ! j)" by blast
    have same: "idle_ok k obj t0 q0 s' = idle_ok k obj t0 q0 s"
      "populated k obj t0 s' = populated k obj t0 s"
      by (simp_all add: s' idle_ok_def populated_def unpopulated_def)
    have "thread_ok k obj v client rq t0 q0 P s' t'"
      by (simp add: same t' thread_ok_def idle [OF free])
    moreover have "cacheLock s'" by (simp add: s')
    ultimately show ?thesis
      by (intro coalesced_update [OF i others ok _ _ t0']) (simp_all add: same)
  next
    case (Running p)
    then have run: "isRunning (ts ! i)" by simp
    from exclusive_others [OF ex i run]
    have others: "\<forall>j<length ts. j \<noteq> i \<longrightarrow> \<not> isRunning (ts ! j)" by blast
    have held: "cacheLock s" by (rule exclusive_held [OF ex i run])
    from oki Running consider
        (start) "p = P" "idle_ok k obj t0 q0 s"
      | (req) "p = DoRequest client rq (DoSetDefault k obj (Ret (Inr v)))"
          "unpopulated k t0 s" "requests (trace s) = q0"
      | (set) "p = DoSetDefault k obj (Ret (Inr v))"
          "unpopulated k t0 s" "requests (trace s) = q0 + 1"
      | (ret) "p = Ret (Inr v)" "populated k obj t0 s" "requests (trace s) = q0 + 1"
      by (auto simp: thread_ok_def)
    then show ?thesis
    proof cases
      case start
      with step Running P have t': "t' = Running (F (cache_Get (cache s) (now s) k))"
        and s': "s' = emit (EvGet k) s" by simp_all
      have same: "populated k obj t0 s' = populated k obj t0 s"
        "unpopulated k t0 s' = unpopulated k t0 s" "requests (trace s') = requests (trace s)"
        "cacheLock s'"
        by (simp_all add: s' populated_def unpopulated_def held)
      from start(2) have "thread_ok k obj v client rq t0 q0 P s' t'"
        unfolding idle_ok_def
      proof
        assume u: "unpopulated k t0 s \<and> requests (trace s) = q0"
        with unpopulated_miss [of k t0 s] t0 have "t' = Running (F None)" by (simp add: t')
        with u show ?thesis by (simp add: thread_ok_def miss same)
      next
        assume u: "populated k obj t0 s \<and> requests (trace s) = q0 + 1"
        with populated_hit [of k obj t0 s] now have "t' = Running (F (Some obj))"
          by (simp add: t')
        with u show ?thesis by (simp add: thread_ok_def hit same)
      qed
      then show ?thesis
        by (intro coalesced_update [OF i others ok _ _ t0']) (simp_all add: same)
    next
      case req
      with step Running have t': "t' = Running (DoSetDefault k obj (Ret (Inr v)))"
        and s': "s' = request client (call_event client rq) s" by simp_all
      have same: "populated k obj t0 s' = populated k obj t0 s"
        "unpopulated k t0 s' = unpopulated k t0 s"
        "requests (trace s') = requests (trace s) + 1" "cacheLock s'"
        by (simp_all add: s' populated_def unpopulated_def held)
      show ?thesis
        by (rule coalesced_update [OF i others ok _ _ t0'])
           (simp_all add: same t' thread_ok_def req)
    next
      case set
      with step Running have t': "t' = Running (Ret (Inr v))"
        and s': "s' = SetDefault k obj s" by simp_all
      have pop: "populated k obj t0 s'"
        using t0 by (simp add: s' populated_def cache_SetDefault_def)
      have same: "requests (trace s') = requests (trace s)" "cacheLock s'"
        by (simp_all add: s' held)
      show ?thesis
        by (rule coalesced_update [OF i others ok _ _ t0'])
           (simp_all add: same t' thread_ok_def set pop)
    next
      case ret
      with step Running have t': "t' = Returned (Inr v)"
        and s': "s' = emit EvUnlock (s\<lparr>cacheLock := False\<rparr>)" by simp_all
      have same: "populated k obj t0 s' = populated k obj t0 s"
        "requests (trace s') = requests (trace s)"
        by (simp_all add: s' populated_def)
      show ?thesis
        by (rule coalesced_update [OF i others ok _ _ t0'])
           (simp_all add: same t' thread_ok_def idle_ok_def ret)
    qed
  next
    case (Returned r)
    with step show ?thesis by simp
  qed
qed


lemma run_now: "run P acts (ts, s) = Some (ts', s') \<Longrightarrow> now s \<le> now s'"
proof (induction acts arbitrary: ts s)
  case Nil
  then show ?case by simp
next
  case (Cons a acts)
  show ?case
  proof (cases a)
    case (Step i)
    with Cons.prems obtain t1 s1 where i: "i < length ts"
      and step: "thread_step P (ts ! i) s = Some (t1, s1)"
      and rest: "run P acts (ts[i := t1], s1) = Some (ts', s')"
      by (auto split: if_splits option.splits)
    from thread_step_now [OF step] Cons.IH [OF rest] show ?thesis by simp
  next
    case (Tick d)
    with Cons.prems have "run P acts (ts, s\<lparr>now := now s + d\<rparr>) = Some (ts', s')" by simp
    from Cons.IH [OF this] show ?thesis by simp
  qed
qed

lemma idle_ok_now: "idle_ok k obj t0 q0 (s\<lparr>now := x\<rparr>) = idle_ok k obj t0 q0 s"
  by (simp add: idle_ok_def populated_def unpopulated_def)

lemma thread_ok_now:
  "thread_ok k obj v client rq t0 q0 P (s\<lparr>now := x\<rparr>) t
     = thread_ok k obj v client rq t0 q0 P s t"
  by (cases t) (simp_all add: thread_ok_def idle_ok_def populated_def unpopulated_def)

lemma coalesced_tick:
  "coalesced k obj v client rq t0 q0 P (ts, s) \<Longrightarrow>
   coalesced k obj v client rq t0 q0 P (ts, s\<lparr>now := now s + d\<rparr>)"
  by (simp add: coalesced_def thread_ok_now idle_ok_now)

lemma exclusive_tick: "exclusive (ts, s) \<Longrightarrow> exclusive (ts, s\<lparr>now := now s + d\<rparr>)"
  by (simp add: exclusive_def)

lemma race_invariant:
  assumes P: "P = DoGet k F"
    and miss: "F None = DoRequest client rq (DoSetDefault k obj (Ret (Inr v)))"
    and hit: "F (Some obj) = Ret (Inr v)"
  shows "run P acts (ts, s) = Some (ts', s') \<Longrightarrow>
         coalesced k obj v client rq t0 q0 P (ts, s) \<Longrightarrow> exclusive (ts, s) \<Longrightarrow>
         trace s = tr0 @ es \<Longrightarrow> held_after h0 es = Some (cacheLock s) \<Longrightarrow>
         now s' < t0 + defaultExpiration \<Longrightarrow>
         coalesced k obj v client rq t0 q0 P (ts', s') \<and> exclusive (ts', s')
         \<and> (\<exists>es'. trace s' = tr0 @ es' \<and> held_after h0 es' = Some (cacheLock s'))"
proof (induction acts arbitrary: ts s es)
  case Nil
  then show ?case by auto
next
  case (Cons a acts)
  show ?case
  proof (cases a)
    case (Step i)
    with Cons.prems(1) obtain t1 s1 where i: "i < length ts"
      and step: "thread_step P (ts ! i) s = Some (t1, s1)"
      and rest: "run P acts (ts[i := t1], s1) = Some (ts', s')"
      by (auto split: if_splits option.splits)
    from run_now [OF rest] Cons.prems(6) have b1: "now s1 < t0 + defaultExpiration" by simp
    have c1: "coalesced k obj v client rq t0 q0 P (ts[i := t1], s1)"
      by (rule coalesced_step [OF P miss hit Cons.prems(2,3) i step b1])
    have e1: "exclusive (ts[i := t1], s1)"
      by (rule exclusive_step [OF Cons.prems(3) i step])
    from held_after_step [OF Cons.prems(3) i step Cons.prems(4,5)]
    obtain es1 where "trace s1 = tr0 @ es1" "held_after h0 es1 = Some (cacheLock s1)"
      by blast
    from Cons.IH [OF rest c1 e1 this Cons.prems(6)] show ?thesis .
  next
    case (Tick d)
    let ?s1 = "s\<lparr>now := now s + d\<rparr>"
    from Tick Cons.prems(1) have rest: "run P acts (ts, ?s1) = Some (ts', s')" by simp
    have "trace ?s1 = tr0 @ es" "held_after h0 es = Some (cacheLock ?s1)"
      using Cons.prems(4,5) by simp_all
    from Cons.IH [OF rest coalesced_tick [OF Cons.prems(2)] exclusive_tick [OF Cons.prems(3)]
           this Cons.prems(6)]
    show ?thesis .
  qed
qed

lemma requests_append: "requests (xs @ ys) = requests xs + requests ys"
  by (simp add: requests_def)

lemma coalesced_requests:
  assumes "coalesced k obj v client rq t0 q0 P (ts, s)" and "exclusive (ts, s)"
  shows "requests (trace s) \<le> q0 + 1"
proof (cases "cacheLock s")
  case False
  with assms(1) show ?thesis by (auto simp: coalesced_def idle_ok_def)
next
  case True
  with assms(2) obtain j where j: "j < length ts" "isRunning (ts ! j)"
    by (auto simp: exclusive_def)
  then obtain p where "ts ! j = Running p" by (cases "ts ! j") auto
  with assms(1) j(1) show ?thesis
    by (fastforce simp: coalesced_def thread_ok_def idle_ok_def)
qed

lemma coalesced_returned:
  assumes "coalesced k obj v client rq t0 q0 P (ts, s)" and "j < length ts"
    and "ts ! j = Returned r"
  shows "r = Inr v"
  using assms by (fastforce simp: coalesced_def thread_ok_def)

text \<open>The race of callers that make the same call on a state in which the key is absent.\<close>

lemma race:
  fixes P :: "(error + 'a) prog"
  assumes P: "P = DoGet k F"
    and miss: "F None = DoRequest client rq (DoSetDefault k obj (Ret (Inr v)))"
    and hit: "F (Some obj) = Ret (Inr v)"
    and run: "run P acts (replicate n Waiting, s0) = Some (ts, s)"
    and free: "\<not> cacheLock s0"
    and absent: "cache_Get (cache s0) (now s0) k = None"
    and bound: "now s < now s0 + defaultExpiration"
  shows "requests (actions s0 s) \<le> 1
         \<and> (\<forall>j<length ts. \<forall>r. ts ! j = Returned r \<longrightarrow> r = Inr v)
         \<and> held_after False (actions s0 s) = Some (cacheLock s)"
proof -
  let ?c0 = "(replicate n Waiting :: (error + 'a) thread list, s0)"
  have c0: "coalesced k obj v client rq (now s0) (requests (trace s0)) P ?c0"
    using free absent
    by (simp add: coalesced_def thread_ok_def idle_ok_def unpopulated_def)
  have e0: "exclusive ?c0" using free by (simp add: exclusive_def)
  have t0: "trace s0 = trace s0 @ []" "held_after False [] = Some (cacheLock s0)"
    using free by simp_all
  from race_invariant [OF P miss hit run c0 e0 t0 bound]
  obtain es where c: "coalesced k obj v client rq (now s0) (requests (trace s0)) P (ts, s)"
    and e: "exclusive (ts, s)"
    and tr: "trace s = trace s0 @ es" and h: "held_after False es = Some (cacheLock s)"
    by blast
  from coalesced_requests [OF c e] tr have "requests es \<le> 1"
    by (simp add: requests_append)
  with tr h coalesced_returned [OF c] show ?thesis by auto
qed

subsection \<open>Races in which the lookup fails\<close>

lemma filter_update_count:
  "i < length ts \<Longrightarrow>
   length (filter Q (ts[i := x])) + (if Q (ts ! i) then 1 else 0)
     = length (filter Q ts) + (if Q x then 1 else 0)"
proof (induction ts arbitrary: i)
  case Nil
  then show ?case by simp
next
  case (Cons t ts)
  show ?case
  proof (cases i)
    case 0
    then show ?thesis by simp
  next
    case (Suc j)
    with Cons.prems have "j < length ts" by simp
    from Cons.IH [OF this] Suc show ?thesis by simp
  qed
qed

lemma filter_mono_length:
  "(\<And>x. x \<in> set xs \<Longrightarrow> Q x \<Longrightarrow> R x) \<Longrightarrow> length (filter Q xs) \<le> length (filter R xs)"
  by (induction xs) auto

lemma refused_step:
  fixes P :: "(error + 'a) prog"
  assumes P: "P = DoGet k F"
    and miss: "F None = DoRequest client rq (Ret (Inl e))"
    and absent: "cache_Get c0 t0 k = None"
    and inv: "refused k e client rq t0 q0 c0 P (ts, s)"
    and i: "i < length ts"
    and step: "thread_step P (ts ! i) s = Some (t', s')"
  shows "refused k e client rq t0 q0 c0 P (ts[i := t'], s')"
proof -
  let ?req = "Running (DoRequest client rq (Ret (Inl e))) :: (error + 'a) thread"
  let ?ret = "Running (Ret (Inl e)) :: (error + 'a) thread"
  let ?allowed = "{Waiting, Running P, ?req, ?ret, Returned (Inl e)}"
  from inv have t0: "t0 \<le> now s" and c: "cache s = c0"
    and allowed: "\<forall>t \<in> set ts. t \<in> ?allowed"
    and count: "requests (trace s) = q0 + length (filter (past_request e) ts)"
    by (simp_all add: refused_def)
  from allowed i have ti: "ts ! i \<in> ?allowed" by simp
  have upd: "\<forall>t \<in> set (ts[i := t']). t \<in> ?allowed" if "t' \<in> ?allowed"
    using allowed that set_update_subset_insert [of ts i t'] by blast
  note cnt = filter_update_count [OF i, of "past_request e" t']
  from step ti consider
      (lock) "ts ! i = Waiting" "t' = Running P" "s' = emit EvLock (s\<lparr>cacheLock := True\<rparr>)"
    | (get) "ts ! i = Running P" "t' = Running (F (cache_Get (cache s) (now s) k))"
        "s' = emit (EvGet k) s"
    | (req) "ts ! i = ?req" "t' = ?ret" "s' = request client (call_event client rq) s"
    | (ret) "ts ! i = ?ret" "t' = Returned (Inl e)"
        "s' = emit EvUnlock (s\<lparr>cacheLock := False\<rparr>)"
    by (auto simp: P split: if_splits)
  then show ?thesis
  proof cases
    case lock
    with cnt have "length (filter (past_request e) (ts[i := t'])) = length (filter (past_request e) ts)"
      by (simp add: past_request_def P)
    with lock t0 c count upd show ?thesis by (simp add: refused_def)
  next
    case get
    from cache_Get_later [OF absent t0] c have "cache_Get (cache s) (now s) k = None" by simp
    with get miss have t': "t' = ?req" by simp
    from cnt have "length (filter (past_request e) (ts[i := t'])) = length (filter (past_request e) ts)"
      unfolding t' get(1) by (simp add: past_request_def P)
    with get(3) t' t0 c count upd show ?thesis by (simp add: refused_def)
  next
    case req
    with cnt have "length (filter (past_request e) (ts[i := t'])) = length (filter (past_request e) ts) + 1"
      by (simp add: past_request_def)
    with req t0 c count upd show ?thesis by (simp add: refused_def)
  next
    case ret
    with cnt have "length (filter (past_request e) (ts[i := t'])) = length (filter (past_request e) ts)"
      by (simp add: past_request_def)
    with ret t0 c count upd show ?thesis by (simp add: refused_def)
  qed
qed

lemma refused_run:
  fixes P :: "(error + 'a) prog"
  assumes P: "P = DoGet k F"
    and miss: "F None = DoRequest client rq (Ret (Inl e))"
    and absent: "cache_Get c0 t0 k = None"
  shows "run P acts (ts, s) = Some (ts', s') \<Longrightarrow> refused k e client rq t0 q0 c0 P (ts, s) \<Longrightarrow>
         refused k e client rq t0 q0 c0 P (ts', s')"
proof (induction acts arbitrary: ts s)
  case Nil
  then show ?case by simp
next
  case (Cons a acts)
  show ?case
  proof (cases a)
    case (Step i)
    with Cons.prems(1) obtain t1 s1 where i: "i < length ts"
      and step: "thread_step P (ts ! i) s = Some (t1, s1)"
      and rest: "run P acts (ts[i := t1], s1) = Some (ts', s')"
      by (auto split: if_splits option.splits)
    from Cons.IH [OF rest refused_step [OF P miss absent Cons.prems(2) i step]]
    show ?thesis .
  next
    case (Tick d)
    with Cons.prems(1) have rest: "run P acts (ts, s\<lparr>now := now s + d\<rparr>) = Some (ts', s')"
      by simp
    have "refused k e client rq t0 q0 c0 P (ts, s\<lparr>now := now s + d\<rparr>)"
      using Cons.prems(2) by (simp add: refused_def)
    from Cons.IH [OF rest this] show ?thesis .
  qed
qed

text \<open>The mutex is respected in every race, whatever the call.\<close>

lemma run_exclusive:
  "run P acts (ts, s) = Some (ts', s') \<Longrightarrow> exclusive (ts, s) \<Longrightarrow>
   trace s = tr0 @ es \<Longrightarrow> held_after h0 es = Some (cacheLock s) \<Longrightarrow>
   exclusive (ts', s') \<and> (\<exists>es'. trace s' = tr0 @ es' \<and> held_after h0 es' = Some (cacheLock s'))"
proof (induction acts arbitrary: ts s es)
  case Nil
  then show ?case by auto
next
  case (Cons a acts)
  show ?case
  proof (cases a)
    case (Step i)
    with Cons.prems(1) obtain t1 s1 where i: "i < length ts"
      and step: "thread_step P (ts ! i) s = Some (t1, s1)"
      and rest: "run P acts (ts[i := t1], s1) = Some (ts', s')"
      by (auto split: if_splits option.splits)
    have e1: "exclusive (ts[i := t1], s1)"
      by (rule exclusive_step [OF Cons.prems(2) i step])
    from held_after_step [OF Cons.prems(2) i step Cons.prems(3,4)]
    obtain es1 where "trace s1 = tr0 @ es1" "held_after h0 es1 = Some (cacheLock s1)"
      by blast
    from Cons.IH [OF rest e1 this] show ?thesis .
  next
    case (Tick d)
    let ?s1 = "s\<lparr>now := now s + d\<rparr>"
    from Tick Cons.prems(1) have rest: "run P acts (ts, ?s1) = Some (ts', s')" by simp
    have "trace ?s1 = tr0 @ es" "held_after h0 es = Some (cacheLock ?s1)"
      using Cons.prems(3,4) by simp_all
    from Cons.IH [OF rest exclusive_tick [OF Cons.prems(2)] this] show ?thesis .
  qed
qed

lemma failed_race:
  fixes P :: "(error + 'a) prog"
  assumes P: "P = DoGet k F"
    and miss: "F None = DoRequest client rq (Ret (Inl e))"
    and run: "run P acts (replicate n Waiting, s0) = Some (ts, s)"
    and free: "\<not> cacheLock s0"
    and absent: "cache_Get (cache s0) (now s0) k = None"
  shows "cache s = cache s0
         \<and> (\<forall>j<length ts. \<forall>r. ts ! j = Returned r \<longrightarrow> r = Inl e)
         \<and> length (filter isReturned ts) \<le> requests (actions s0 s)
         \<and> requests (actions s0 s) \<le> length ts
         \<and> held_after False (actions s0 s) = Some (cacheLock s)"
proof -
  let ?c0 = "(replicate n Waiting :: (error + 'a) thread list, s0)"
  have "refused k e client rq (now s0) (requests (trace s0)) (cache s0) P ?c0"
    by (simp add: refused_def past_request_def)
  from refused_run [OF P miss absent run this]
  have c: "cache s = cache s0"
    and allowed: "\<forall>t \<in> set ts. t \<in> {Waiting, Running P,
                    Running (DoRequest client rq (Ret (Inl e))),
                    Running (Ret (Inl e)), Returned (Inl e)}"
    and count: "requests (trace s) = requests (trace s0) + length (filter (past_request e) ts)"
    by (simp_all add: refused_def)
  have e0: "exclusive ?c0" using free by (simp add: exclusive_def)
  have t0: "trace s0 = trace s0 @ []" "held_after False [] = Some (cacheLock s0)"
    using free by simp_all
  from run_exclusive [OF run e0 t0]
  obtain es where tr: "trace s = trace s0 @ es" and h: "held_after False es = Some (cacheLock s)"
    by blast
  from tr count have req: "requests es = length (filter (past_request e) ts)"
    by (simp add: requests_append)
  have ret: "r = Inl e" if "j < length ts" "ts ! j = Returned r" for j r
  proof -
    from that have "Returned r \<in> set ts" by (metis nth_mem)
    with allowed show ?thesis by auto
  qed
  have "isReturned t \<Longrightarrow> past_request e t" if "t \<in> set ts" for t
    using allowed that by (cases t) (auto simp: past_request_def)
  then have "length (filter isReturned ts) \<le> length (filter (past_request e) ts)"
    by (rule filter_mono_length)
  moreover have "length (filter (past_request e) ts) \<le> length ts" by simp
  ultimately show ?thesis
    using c ret tr h req by auto
qed

subsection \<open>Coalescing\<close>

lemma getVpc_prog_shape:
  assumes "DescribeVpcs client (vpcInput id') = Inr [v]"
  shows "\<exists>F. getVpc_prog client id' = DoGet (vpcCacheKey (Region client) id') F
           \<and> F None = DoRequest client (VpcsCall (vpcInput id'))
                 (DoSetDefault (vpcCacheKey (Region client) id') (CVpc v) (Ret (Inr v)))
           \<and> F (Some (CVpc v)) = Ret (Inr v)"
proof -
  have "case getVpc_prog client id' of
          DoGet k F \<Rightarrow> k = vpcCacheKey (Region client) id'
            \<and> F None = DoRequest client (VpcsCall (vpcInput id'))
                 (DoSetDefault (vpcCacheKey (Region client) id') (CVpc v) (Ret (Inr v)))
            \<and> F (Some (CVpc v)) = Ret (Inr v)
        | _ \<Rightarrow> False"
    using assms by (simp add: getVpc_prog_def Let_def)
  then show ?thesis
    by (cases "getVpc_prog client id'") auto
qed

lemma getDefaultAMIID_prog_shape:
  assumes "amiFilters os = Some filter'"
    and "DescribeImages client (imagesInput filter') = Inr (first # rest)"
    and "a = ImageId (newestImage first (first # rest))"
  shows "\<exists>F. getDefaultAMIID_prog client os = DoGet (amiCacheKey (Region client) os) F
           \<and> F None = DoRequest client (ImagesCall (imagesInput filter'))
                 (DoSetDefault (amiCacheKey (Region client) os) (CString a) (Ret (Inr a)))
           \<and> F (Some (CString a)) = Ret (Inr a)"
proof -
  have "case getDefaultAMIID_prog client os of
          DoGet k F \<Rightarrow> k = amiCacheKey (Region client) os
            \<and> F None = DoRequest client (ImagesCall (imagesInput filter'))
                 (DoSetDefault (amiCacheKey (Region client) os) (CString a) (Ret (Inr a)))
            \<and> F (Some (CString a)) = Ret (Inr a)
        | _ \<Rightarrow> False"
    using assms by (simp add: getDefaultAMIID_prog_def Let_def)
  then show ?thesis
    by (cases "getDefaultAMIID_prog client os") auto
qed

text \<open>
  Claim C1, as stated, fails when the request fails: nothing is stored, and two callers
  of \<open>getVpc\<close> for one absent key, one after the other in the order in which they get
  the mutex, both ask EC2.
\<close>

theorem failed_request_not_coalesced:
  "map_option outcome
     (run (getVpc_prog (exampleClient (Inl (AwsError ''RequestLimitExceeded'')) (Inr []))
             ''vpc-a'')
        [Step 0, Step 0, Step 0, Step 0, Step 1, Step 1, Step 1, Step 1]
        ([Waiting, Waiting], exampleState))
   = Some ([Returned (Inl (AwsErrorToTerminalError (AwsError ''RequestLimitExceeded'')
                             ''failed to list vpc's'')),
            Returned (Inl (AwsErrorToTerminalError (AwsError ''RequestLimitExceeded'')
                             ''failed to list vpc's''))],
           2)"
  by (simp add: getVpc_prog_def Let_def outcome_def requests_def exampleState_def
        cache_Get_def)

lemma getVpc_prog_failing:
  assumes "cache_Get (cache s0) (now s0) (vpcCacheKey (Region client) id') = None"
    and "getVpc client id' s0 = Some (Inl e, s0')"
  shows "\<exists>F. getVpc_prog client id' = DoGet (vpcCacheKey (Region client) id') F
           \<and> F None = DoRequest client (VpcsCall (vpcInput id')) (Ret (Inl e))"
proof -
  from assms have "(\<exists>err. DescribeVpcs client (vpcInput id') = Inl err
                        \<and> e = AwsErrorToTerminalError err ''failed to list vpc's'')
      \<or> (\<exists>Vpcs. DescribeVpcs client (vpcInput id') = Inr Vpcs \<and> length Vpcs \<noteq> 1
              \<and> e = Errorf ''unable to find specified vpc with id %q'' [id'])"
    by (auto simp: getVpc_def locked_unfold getVpc_locked_miss Let_def
          split: sum.splits if_splits)
  then have "case getVpc_prog client id' of
          DoGet k F \<Rightarrow> k = vpcCacheKey (Region client) id'
            \<and> F None = DoRequest client (VpcsCall (vpcInput id')) (Ret (Inl e))
        | _ \<Rightarrow> False"
    by (auto simp: getVpc_prog_def Let_def)
  then show ?thesis
    by (cases "getVpc_prog client id'") auto
qed

lemma getDefaultAMIID_prog_failing:
  assumes "amiFilters os = Some filter'"
    and "cache_Get (cache s0) (now s0) (amiCacheKey (Region client) os) = None"
    and "getDefaultAMIID client os s0 = Some (Inl e, s0')"
  shows "\<exists>F. getDefaultAMIID_prog client os = DoGet (amiCacheKey (Region client) os) F
           \<and> F None = DoRequest client (ImagesCall (imagesInput filter')) (Ret (Inl e))"
proof -
  from assms have "DescribeImages client (imagesInput filter') = Inl e
      \<or> DescribeImages client (imagesInput filter') = Inr []
          \<and> e = Errorf (''could not find Image for '%s'' @ [CHR 0x27]) [os]"
    by (auto simp: getDefaultAMIID_def locked_unfold getDefaultAMIID_locked_miss Let_def
          split: sum.splits list.splits if_splits)
  with assms(1) have "case getDefaultAMIID_prog client os of
          DoGet k F \<Rightarrow> k = amiCacheKey (Region client) os
            \<and> F None = DoRequest client (ImagesCall (imagesInput filter')) (Ret (Inl e))
        | _ \<Rightarrow> False"
    by (auto simp: getDefaultAMIID_prog_def Let_def)
  then show ?thesis
    by (cases "getDefaultAMIID_prog client os") auto
qed

text \<open>
  Claim C1, amended. Callers of \<open>getVpc\<close>, or of \<open>getDefaultAMIID\<close> for an operating
  system of the filter table, that ask for one key at the same time take their steps in
  any order that the mutex allows, and each step between \<open>Lock\<close> and \<open>Unlock\<close>, the
  read of the store among them, is taken while its caller holds the mutex. Let the key be
  absent at the start. If the lookup succeeds, that is \<open>DescribeVpcs\<close> answers with
  exactly one descriptor, or \<open>DescribeImages\<close> with at least one candidate, and the race
  is over before the default expiration has passed since its start, then at most one
  request is made and every caller that has returned has the same value. If the lookup
  fails, so that a call made alone at the start returns an error, then the store stays as
  it was, every caller that has returned has that error, and each of them has made a
  request of its own: there are at least as many requests as callers that have returned,
  and at most as many as callers. A caller on its own takes the steps of the sequential
  call.
\<close>

theorem coalescing:
  "(run (getVpc_prog client id') acts (replicate n Waiting, s0) = Some (ts, s)
      \<and> \<not> cacheLock s0
      \<and> cache_Get (cache s0) (now s0) (vpcCacheKey (Region client) id') = None
      \<and> DescribeVpcs client (vpcInput id') = Inr [v]
      \<and> now s < now s0 + defaultExpiration
    \<longrightarrow> requests (actions s0 s) \<le> 1
        \<and> (\<forall>j<length ts. \<forall>r. ts ! j = Returned r \<longrightarrow> r = Inr v)
        \<and> held_after False (actions s0 s) = Some (cacheLock s))
   \<and> (run (getDefaultAMIID_prog client os) acts' (replicate n' Waiting, s0) = Some (us, u)
      \<and> \<not> cacheLock s0
      \<and> amiFilters os = Some filter'
      \<and> cache_Get (cache s0) (now s0) (amiCacheKey (Region client) os) = None
      \<and> DescribeImages client (imagesInput filter') = Inr (first # rest)
      \<and> now u < now s0 + defaultExpiration
    \<longrightarrow> requests (actions s0 u) \<le> 1
        \<and> (\<forall>j<length us. \<forall>r. us ! j = Returned r \<longrightarrow>
              r = Inr (ImageId (newestImage first (first # rest))))
        \<and> held_after False (actions s0 u) = Some (cacheLock u))
   \<and> (run (getVpc_prog client2 id') acts2 (replicate n2 Waiting, t0) = Some (ts2, t)
      \<and> cache_Get (cache t0) (now t0) (vpcCacheKey (Region client2) id') = None
      \<and> getVpc client2 id' t0 = Some (Inl e, t0')
    \<longrightarrow> cache t = cache t0
        \<and> (\<forall>j<length ts2. \<forall>r. ts2 ! j = Returned r \<longrightarrow> r = Inl e)
        \<and> length (filter isReturned ts2) \<le> requests (actions t0 t)
        \<and> requests (actions t0 t) \<le> length ts2
        \<and> held_after False (actions t0 t) = Some (cacheLock t))
   \<and> (run (getDefaultAMIID_prog client2 os) acts3 (replicate n3 Waiting, t0) = Some (us2, u2)
      \<and> amiFilters os = Some filter'
      \<and> cache_Get (cache t0) (now t0) (amiCacheKey (Region client2) os) = None
      \<and> getDefaultAMIID client2 os t0 = Some (Inl e', t0'')
    \<longrightarrow> cache u2 = cache t0
        \<and> (\<forall>j<length us2. \<forall>r. us2 ! j = Returned r \<longrightarrow> r = Inl e')
        \<and> length (filter isReturned us2) \<le> requests (actions t0 u2)
        \<and> requests (actions t0 u2) \<le> length us2
        \<and> held_after False (actions t0 u2) = Some (cacheLock u2))
   \<and> (getVpc client id' s1 = Some (r1, s1') \<longrightarrow>
        (\<exists>m. run (getVpc_prog client id') (replicate m (Step 0)) ([Waiting], s1)
               = Some ([Returned r1], s1')))
   \<and> (getDefaultAMIID client os s2 = Some (r2, s2') \<longrightarrow>
        (\<exists>m. run (getDefaultAMIID_prog client os) (replicate m (Step 0)) ([Waiting], s2)
               = Some ([Returned r2], s2')))"
proof (intro conjI impI)
  assume h: "run (getVpc_prog client id') acts (replicate n Waiting, s0) = Some (ts, s)
      \<and> \<not> cacheLock s0
      \<and> cache_Get (cache s0) (now s0) (vpcCacheKey (Region client) id') = None
      \<and> DescribeVpcs client (vpcInput id') = Inr [v]
      \<and> now s < now s0 + defaultExpiration"
  then obtain F where "getVpc_prog client id' = DoGet (vpcCacheKey (Region client) id') F"
    "F None = DoRequest client (VpcsCall (vpcInput id'))
                 (DoSetDefault (vpcCacheKey (Region client) id') (CVpc v) (Ret (Inr v)))"
    "F (Some (CVpc v)) = Ret (Inr v)"
    using getVpc_prog_shape [of client id' v] by blast
  from race [OF this] h
  have "requests (actions s0 s) \<le> 1
         \<and> (\<forall>j<length ts. \<forall>r. ts ! j = Returned r \<longrightarrow> r = Inr v)
         \<and> held_after False (actions s0 s) = Some (cacheLock s)"
    by blast
  then show "requests (actions s0 s) \<le> 1"
    and "\<forall>j<length ts. \<forall>r. ts ! j = Returned r \<longrightarrow> r = Inr v"
    and "held_after False (actions s0 s) = Some (cacheLock s)"
    by blast+
next
  let ?a = "ImageId (newestImage first (first # rest))"
  assume h: "run (getDefaultAMIID_prog client os) acts' (replicate n' Waiting, s0) = Some (us, u)
      \<and> \<not> cacheLock s0
      \<and> amiFilters os = Some filter'
      \<and> cache_Get (cache s0) (now s0) (amiCacheKey (Region client) os) = None
      \<and> DescribeImages client (imagesInput filter') = Inr (first # rest)
      \<and> now u < now s0 + defaultExpiration"
  then obtain F where
    "getDefaultAMIID_prog client os = DoGet (amiCacheKey (Region client) os) F"
    "F None = DoRequest client (ImagesCall (imagesInput filter'))
                 (DoSetDefault (amiCacheKey (Region client) os) (CString ?a) (Ret (Inr ?a)))"
    "F (Some (CString ?a)) = Ret (Inr ?a)"
    using getDefaultAMIID_prog_shape [of os filter' client first rest ?a] by blast
  from race [OF this] h
  have "requests (actions s0 u) \<le> 1
         \<and> (\<forall>j<length us. \<forall>r. us ! j = Returned r \<longrightarrow> r = Inr ?a)
         \<and> held_after False (actions s0 u) = Some (cacheLock u)"
    by blast
  then show "requests (actions s0 u) \<le> 1"
    and "\<forall>j<length us. \<forall>r. us ! j = Returned r \<longrightarrow> r = Inr ?a"
    and "held_after False (actions s0 u) = Some (cacheLock u)"
    by blast+
next
  assume h: "run (getVpc_prog client2 id') acts2 (replicate n2 Waiting, t0) = Some (ts2, t)
      \<and> cache_Get (cache t0) (now t0) (vpcCacheKey (Region client2) id') = None
      \<and> getVpc client2 id' t0 = Some (Inl e, t0')"
  then have free: "\<not> cacheLock t0"
    by (auto simp: getVpc_def locked_unfold split: if_splits)
  from h obtain F where
    "getVpc_prog client2 id' = DoGet (vpcCacheKey (Region client2) id') F"
    "F None = DoRequest client2 (VpcsCall (vpcInput id')) (Ret (Inl e))"
    using getVpc_prog_failing [of t0 client2 id' e t0'] by blast
  from failed_race [OF this _ free] h
  have "cache t = cache t0
        \<and> (\<forall>j<length ts2. \<forall>r. ts2 ! j = Returned r \<longrightarrow> r = Inl e)
        \<and> length (filter isReturned ts2) \<le> requests (actions t0 t)
        \<and> requests (actions t0 t) \<le> length ts2
        \<and> held_after False (actions t0 t) = Some (cacheLock t)"
    by blast
  then show "cache t = cache t0"
    and "\<forall>j<length ts2. \<forall>r. ts2 ! j = Returned r \<longrightarrow> r = Inl e"
    and "length (filter isReturned ts2) \<le> requests (actions t0 t)"
    and "requests (actions t0 t) \<le> length ts2"
    and "held_after False (actions t0 t) = Some (cacheLock t)"
    by blast+
next
  assume h: "run (getDefaultAMIID_prog client2 os) acts3 (replicate n3 Waiting, t0)
        = Some (us2, u2)
      \<and> amiFilters os = Some filter'
      \<and> cache_Get (cache t0) (now t0) (amiCacheKey (Region client2) os) = None
      \<and> getDefaultAMIID client2 os t0 = Some (Inl e', t0'')"
  then have free: "\<not> cacheLock t0"
    by (auto simp: getDefaultAMIID_def locked_unfold split: if_splits)
  from h obtain F where
    "getDefaultAMIID_prog client2 os = DoGet (amiCacheKey (Region client2) os) F"
    "F None = DoRequest client2 (ImagesCall (imagesInput filter')) (Ret (Inl e'))"
    using getDefaultAMIID_prog_failing [of os filter' t0 client2 e' t0''] by blast
  from failed_race [OF this _ free] h
  have "cache u2 = cache t0
        \<and> (\<forall>j<length us2. \<forall>r. us2 ! j = Returned r \<longrightarrow> r = Inl e')
        \<and> length (filter isReturned us2) \<le> requests (actions t0 u2)
        \<and> requests (actions t0 u2) \<le> length us2
        \<and> held_after False (actions t0 u2) = Some (cacheLock u2)"
    by blast
  then show "cache u2 = cache t0"
    and "\<forall>j<length us2. \<forall>r. us2 ! j = Returned r \<longrightarrow> r = Inl e'"
    and "length (filter isReturned us2) \<le> requests (actions t0 u2)"
    and "requests (actions t0 u2) \<le> length us2"
    and "held_after False (actions t0 u2) = Some (cacheLock u2)"
    by blast+
next
  assume "getVpc client id' s1 = Some (r1, s1')"
  moreover have "exec (getVpc_prog client id') = getVpc_locked client id'"
    by (rule ext) (rule exec_getVpc_prog)
  ultimately have "locked (exec (getVpc_prog client id')) s1 = Some (r1, s1')"
    by (simp add: getVpc_def)
  then show "\<exists>m. run (getVpc_prog client id') (replicate m (Step 0)) ([Waiting], s1)
               = Some ([Returned r1], s1')"
    by (rule run_alone)
next
  assume "getDefaultAMIID client os s2 = Some (r2, s2')"
  moreover have "exec (getDefaultAMIID_prog client os) = getDefaultAMIID_locked client os"
    by (rule ext) (rule exec_getDefaultAMIID_prog)
  ultimately have "locked (exec (getDefaultAMIID_prog client os)) s2 = Some (r2, s2')"
    by (simp add: getDefaultAMIID_def)
  then show "\<exists>m. run (getDefaultAMIID_prog client os) (replicate m (Step 0)) ([Waiting], s2)
               = Some ([Returned r2], s2')"
    by (rule run_alone)
qed

lemma getVpc_race_example:
  "\<exists>s. run (getVpc_prog (exampleClient (Inr [vpcA]) (Inr threeImages)) ''vpc-a'')
          [Step 0, Step 0, Step 0, Step 0, Step 0, Tick 10, Step 1, Step 1, Step 1]
          (replicate (Suc (Suc 0)) Waiting, exampleState)
        = Some ([Returned (Inr vpcA), Returned (Inr vpcA)], s)
      \<and> now s = 1260"
  by (simp add: getVpc_prog_def Let_def cache_Get_def cache_SetDefault_def
        defaultExpiration_def Minute_def exampleState_def vpcCacheKey_def)

lemma getDefaultAMIID_race_example:
  "\<exists>u. run (getDefaultAMIID_prog (exampleClient (Inr [vpcA]) (Inr threeImages))
             OperatingSystemUbuntu)
          [Step 0, Step 0, Step 0, Step 0, Step 0, Tick 10, Step 1, Step 1, Step 1]
          (replicate (Suc (Suc 0)) Waiting, exampleState)
        = Some ([Returned (Inr ''ami-2021''), Returned (Inr ''ami-2021'')], u)
      \<and> now u = 1260"
proof -
  have "threeImages = \<lparr>ImageId = ''ami-2020'', CreationDate = ''2020-01-01T00:00:00Z''\<rparr>
          # tl threeImages"
    by (simp add: threeImages_def)
  then have "(case threeImages of [] \<Rightarrow> x | first # _ \<Rightarrow> f first)
      = f \<lparr>ImageId = ''ami-2020'', CreationDate = ''2020-01-01T00:00:00Z''\<rparr>" for x
      and f :: "Image \<Rightarrow> (error + string) prog"
    by (metis list.simps(5))
  then show ?thesis
    by (simp add: getDefaultAMIID_prog_def Let_def amiFilters_ubuntu newestImage_threeImages
          cache_Get_def cache_SetDefault_def defaultExpiration_def Minute_def exampleState_def
          amiCacheKey_def)
qed

lemma getVpc_failed_race_example:
  "\<exists>t. run (getVpc_prog (exampleClient (Inl (AwsError ''RequestLimitExceeded'')) (Inr []))
             ''vpc-a'')
          [Step 0, Step 0, Step 0, Step 0, Step 1, Step 1, Step 1, Step 1]
          (replicate (Suc (Suc 0)) Waiting, exampleState)
        = Some ([Returned (Inl (AwsErrorToTerminalError (AwsError ''RequestLimitExceeded'')
                                  ''failed to list vpc's'')),
                 Returned (Inl (AwsErrorToTerminalError (AwsError ''RequestLimitExceeded'')
                                  ''failed to list vpc's''))], t)"
  by (simp add: getVpc_prog_def Let_def cache_Get_def exampleState_def)

lemma getDefaultAMIID_failed_race_example:
  "\<exists>u. run (getDefaultAMIID_prog
               (exampleClient (Inl (AwsError ''RequestLimitExceeded'')) (Inr []))
               OperatingSystemUbuntu)
          [Step 0, Step 0, Step 0, Step 0, Step 1, Step 1, Step 1, Step 1]
          (replicate (Suc (Suc 0)) Waiting, exampleState)
        = Some ([Returned (Inl (Errorf (''could not find Image for '%s'' @ [CHR 0x27])
                                  [OperatingSystemUbuntu])),
                 Returned (Inl (Errorf (''could not find Image for '%s'' @ [CHR 0x27])
                                  [OperatingSystemUbuntu]))], u)"
  by (simp add: getDefaultAMIID_prog_def Let_def amiFilters_ubuntu cache_Get_def
        exampleState_def)

theorem coalescing_witness:
  "\<exists>s u t u2 t0' t0''.
     run (getVpc_prog (exampleClient (Inr [vpcA]) (Inr threeImages)) ''vpc-a'')
       [Step 0, Step 0, Step 0, Step 0, Step 0, Tick 10, Step 1, Step 1, Step 1]
       (replicate (Suc (Suc 0)) Waiting, exampleState)
       = Some ([Returned (Inr vpcA), Returned (Inr vpcA)], s)
   \<and> run (getDefaultAMIID_prog (exampleClient (Inr [vpcA]) (Inr threeImages))
          OperatingSystemUbuntu)
       [Step 0, Step 0, Step 0, Step 0, Step 0, Tick 10, Step 1, Step 1, Step 1]
       (replicate (Suc (Suc 0)) Waiting, exampleState)
       = Some ([Returned (Inr ''ami-2021''), Returned (Inr ''ami-2021'')], u)
   \<and> \<not> cacheLock exampleState
   \<and> now s < now exampleState + defaultExpiration
   \<and> now u < now exampleState + defaultExpiration
   \<and> requests (actions exampleState s) \<le> 1
   \<and> held_after False (actions exampleState s) = Some (cacheLock s)
   \<and> requests (actions exampleState u) \<le> 1
   \<and> held_after False (actions exampleState u) = Some (cacheLock u)
   \<and> getVpc (exampleClient (Inl (AwsError ''RequestLimitExceeded'')) (Inr [])) ''vpc-a''
        exampleState
       = Some (Inl (AwsErrorToTerminalError (AwsError ''RequestLimitExceeded'')
                      ''failed to list vpc's''), t0')
   \<and> run (getVpc_prog (exampleClient (Inl (AwsError ''RequestLimitExceeded'')) (Inr []))
             ''vpc-a'')
          [Step 0, Step 0, Step 0, Step 0, Step 1, Step 1, Step 1, Step 1]
          (replicate (Suc (Suc 0)) Waiting, exampleState)
       = Some ([Returned (Inl (AwsErrorToTerminalError (AwsError ''RequestLimitExceeded'')
                                  ''failed to list vpc's'')),
                Returned (Inl (AwsErrorToTerminalError (AwsError ''RequestLimitExceeded'')
                                  ''failed to list vpc's''))], t)
   \<and> cache t = cache exampleState
   \<and> requests (actions exampleState t) = 2
   \<and> getDefaultAMIID (exampleClient (Inl (AwsError ''RequestLimitExceeded'')) (Inr []))
        OperatingSystemUbuntu exampleState
       = Some (Inl (Errorf (''could not find Image for '%s'' @ [CHR 0x27])
                      [OperatingSystemUbuntu]), t0'')
   \<and> run (getDefaultAMIID_prog
             (exampleClient (Inl (AwsError ''RequestLimitExceeded'')) (Inr []))
             OperatingSystemUbuntu)
          [Step 0, Step 0, Step 0, Step 0, Step 1, Step 1, Step 1, Step 1]
          (replicate (Suc (Suc 0)) Waiting, exampleState)
       = Some ([Returned (Inl (Errorf (''could not find Image for '%s'' @ [CHR 0x27])
                                  [OperatingSystemUbuntu])),
                Returned (Inl (Errorf (''could not find Image for '%s'' @ [CHR 0x27])
                                  [OperatingSystemUbuntu]))], u2)
   \<and> cache u2 = cache exampleState
   \<and> requests (actions exampleState u2) = 2"
proof -
  let ?c = "exampleClient (Inr [vpcA]) (Inr threeImages)"
  let ?bad = "exampleClient (Inl (AwsError ''RequestLimitExceeded'')) (Inr [])"
  let ?acts = "[Step 0, Step 0, Step 0, Step 0, Step 0, Tick 10, Step 1, Step 1, Step 1]"
  let ?acts2 = "[Step 0, Step 0, Step 0, Step 0, Step 1, Step 1, Step 1, Step 1]"
  let ?first = "\<lparr>ImageId = ''ami-2020'', CreationDate = ''2020-01-01T00:00:00Z''\<rparr>"
  let ?f = "\<lparr>description =
               ''Canonical, Ubuntu, 18.04 LTS, amd64 bionic image build on ????-??-??'',
             owner = ''099720109477''\<rparr>"
  let ?e = "AwsErrorToTerminalError (AwsError ''RequestLimitExceeded'') ''failed to list vpc's''"
  let ?e' = "Errorf (''could not find Image for '%s'' @ [CHR 0x27]) [OperatingSystemUbuntu]"
  let ?ts2 = "[Returned (Inl ?e), Returned (Inl ?e)] :: (error + Vpc) thread list"
  let ?us2 = "[Returned (Inl ?e'), Returned (Inl ?e')] :: (error + string) thread list"
  obtain s where s: "run (getVpc_prog ?c ''vpc-a'') ?acts
        (replicate (Suc (Suc 0)) Waiting, exampleState)
        = Some ([Returned (Inr vpcA), Returned (Inr vpcA)], s)" and ns: "now s = 1260"
    using getVpc_race_example by blast
  obtain u where u: "run (getDefaultAMIID_prog ?c OperatingSystemUbuntu) ?acts
        (replicate (Suc (Suc 0)) Waiting, exampleState)
        = Some ([Returned (Inr ''ami-2021''), Returned (Inr ''ami-2021'')], u)"
    and nu: "now u = 1260"
    using getDefaultAMIID_race_example by blast
  obtain t where t: "run (getVpc_prog ?bad ''vpc-a'') ?acts2
        (replicate (Suc (Suc 0)) Waiting, exampleState) = Some (?ts2, t)"
    using getVpc_failed_race_example by blast
  obtain u2 where u2: "run (getDefaultAMIID_prog ?bad OperatingSystemUbuntu) ?acts2
        (replicate (Suc (Suc 0)) Waiting, exampleState) = Some (?us2, u2)"
    using getDefaultAMIID_failed_race_example by blast
  obtain t0' where t0': "getVpc ?bad ''vpc-a'' exampleState = Some (Inl ?e, t0')"
    by (simp add: getVpc_def locked_unfold getVpc_locked_miss)
  obtain t0'' where t0'': "getDefaultAMIID ?bad OperatingSystemUbuntu exampleState
                             = Some (Inl ?e', t0'')"
    by (simp add: getDefaultAMIID_def locked_unfold
          getDefaultAMIID_locked_miss [OF amiFilters_ubuntu])
  have bound: "now s < now exampleState + defaultExpiration"
    "now u < now exampleState + defaultExpiration"
    by (simp_all add: ns nu exampleState_def defaultExpiration_def Minute_def)
  have m1: "cache_Get (cache exampleState) (now exampleState)
              (vpcCacheKey (Region ?c) ''vpc-a'') = None" by simp
  have m2: "cache_Get (cache exampleState) (now exampleState)
              (amiCacheKey (Region ?c) OperatingSystemUbuntu) = None" by simp
  have m3: "cache_Get (cache exampleState) (now exampleState)
              (vpcCacheKey (Region ?bad) ''vpc-a'') = None" by simp
  have m4: "cache_Get (cache exampleState) (now exampleState)
              (amiCacheKey (Region ?bad) OperatingSystemUbuntu) = None" by simp
  have r1: "DescribeVpcs ?c (vpcInput ''vpc-a'') = Inr [vpcA]" by simp
  have r2: "DescribeImages ?c (imagesInput ?f) = Inr (?first # tl threeImages)"
    by (simp add: threeImages_def)
  note inst = coalescing [where client = "?c" and id' = "''vpc-a''" and acts = "?acts"
      and n = "Suc (Suc 0)" and ?s0.0 = exampleState
      and ts = "[Returned (Inr vpcA), Returned (Inr vpcA)]" and s = s and v = vpcA
      and os = OperatingSystemUbuntu and acts' = "?acts" and n' = "Suc (Suc 0)"
      and us = "[Returned (Inr ''ami-2021''), Returned (Inr ''ami-2021'')]" and u = u
      and filter' = "?f" and first = "?first" and rest = "tl threeImages"
      and ?client2.0 = "?bad" and ?acts2.0 = "?acts2" and ?n2.0 = "Suc (Suc 0)"
      and ?t0.0 = exampleState and ?ts2.0 = "?ts2" and t = t and e = "?e" and t0' = t0'
      and ?acts3.0 = "?acts2" and ?n3.0 = "Suc (Suc 0)" and ?us2.0 = "?us2" and ?u2.0 = u2
      and e' = "?e'" and t0'' = t0'']
  from inst s exampleState_free m1 r1 bound(1)
  have a: "requests (actions exampleState s) \<le> 1"
    "held_after False (actions exampleState s) = Some (cacheLock s)"
    by blast+
  from inst u exampleState_free amiFilters_ubuntu m2 r2 bound(2)
  have b: "requests (actions exampleState u) \<le> 1"
    "held_after False (actions exampleState u) = Some (cacheLock u)"
    by blast+
  from inst t m3 t0'
  have "cache t = cache exampleState"
    and "length (filter isReturned ?ts2) \<le> requests (actions exampleState t)"
    and "requests (actions exampleState t) \<le> length ?ts2"
    by blast+
  then have c: "cache t = cache exampleState" "requests (actions exampleState t) = 2"
    by simp_all
  from inst u2 amiFilters_ubuntu m4 t0''
  have "cache u2 = cache exampleState"
    and "length (filter isReturned ?us2) \<le> requests (actions exampleState u2)"
    and "requests (actions exampleState u2) \<le> length ?us2"
    by blast+
  then have d: "cache u2 = cache exampleState" "requests (actions exampleState u2) = 2"
    by simp_all
  from s u t u2 t0' t0'' bound exampleState_free a b c d show ?thesis
    by blast
qed

end
